theory Spec2Isabelle
  imports Complex_Main
begin

section \<open>Sparse matrices and scalar buffers\<close>

text \<open>
  The class \<^verbatim>\<open>SparseRegularInverse<Scalar, Uplo, Flags, StorageIndex>\<close> of
  \<^verbatim>\<open>include/MatOp/SparseRegularInverse.h\<close> borrows an \<^verbatim>\<open>Eigen::SparseMatrix\<close> and works
  on raw \<^verbatim>\<open>Scalar*\<close> buffers. \<^verbatim>\<open>Scalar\<close> is the type variable \<open>'a\<close>; its arithmetic is
  exact (a ring for the product, an ordered field for the solver), so rounding of a
  floating-point \<^verbatim>\<open>Scalar\<close> is outside this development. Eigen's dimensions and
  indices (\<^verbatim>\<open>Eigen::Index\<close>) are unbounded; an \<^verbatim>\<open>int\<close> has 32 bits.
\<close>

type_synonym addr = nat

text \<open>The triangle flag \<^verbatim>\<open>Uplo\<close> (\<^verbatim>\<open>Eigen::Lower\<close> or \<^verbatim>\<open>Eigen::Upper\<close>).\<close>

datatype UpLoType = Lower | Upper

text \<open>
  A compressed sparse matrix: \<open>IsRowMajor\<close> is the storage order chosen by \<^verbatim>\<open>Flags\<close>
  (\<^verbatim>\<open>Flags = 0\<close> is column major), \<open>m_innerSize\<close> the length of an inner vector, and
  \<open>m_vectors\<close> holds, for every outer index, the stored pairs of inner index and value
  in storage order (what an \<^verbatim>\<open>InnerIterator\<close> walks through).
\<close>

record 'a SparseMatrix =
  IsRowMajor :: bool
  m_innerSize :: nat
  m_vectors :: "(nat \<times> 'a) list list"

definition outerSize :: "'a SparseMatrix \<Rightarrow> nat" where
  "outerSize M = length (m_vectors M)"

definition SparseMatrix_rows :: "'a SparseMatrix \<Rightarrow> nat" where
  "SparseMatrix_rows M = (if IsRowMajor M then outerSize M else m_innerSize M)"

definition SparseMatrix_cols :: "'a SparseMatrix \<Rightarrow> nat" where
  "SparseMatrix_cols M = (if IsRowMajor M then m_innerSize M else outerSize M)"

text \<open>
  The class invariant of a compressed \<^verbatim>\<open>SparseMatrix\<close>: inside every inner vector the
  indices are strictly increasing and below the inner size.
\<close>

definition inner_ok :: "nat \<Rightarrow> (nat \<times> 'a) list \<Rightarrow> bool" where
  "inner_ok n es = (sorted_wrt (<) (map fst es) \<and> list_all (\<lambda>k. k < n) (map fst es))"

definition compressed :: "'a SparseMatrix \<Rightarrow> bool" where
  "compressed M = list_all (inner_ok (m_innerSize M)) (m_vectors M)"

text \<open>\<^verbatim>\<open>coeff(row, col)\<close>: the stored value, zero where nothing is stored.\<close>

definition vec_coeff :: "(nat \<times> 'a::zero) list \<Rightarrow> nat \<Rightarrow> 'a" where
  "vec_coeff es k = (case map_of es k of None \<Rightarrow> 0 | Some v \<Rightarrow> v)"

definition coeff :: "'a::zero SparseMatrix \<Rightarrow> nat \<Rightarrow> nat \<Rightarrow> 'a" where
  "coeff M r c =
     (let outer = (if IsRowMajor M then r else c);
          inner = (if IsRowMajor M then c else r)
      in if outer < outerSize M then vec_coeff (m_vectors M ! outer) inner else 0)"

text \<open>
  Scalar memory. \<^verbatim>\<open>Eigen::Map<Vector>(p, n)\<close> views the \<open>n\<close> cells from address \<open>p\<close> on;
  nothing checks that the caller's buffer is that long.
\<close>

type_synonym 'a memory = "addr \<Rightarrow> 'a"

definition Map_read :: "addr \<Rightarrow> nat \<Rightarrow> 'a memory \<Rightarrow> 'a list" where
  "Map_read p n m = map (\<lambda>i. m (p + i)) [0..<n]"

definition Map_assign :: "addr \<Rightarrow> 'a list \<Rightarrow> 'a memory \<Rightarrow> 'a memory" where
  "Map_assign p xs m = (\<lambda>a. if p \<le> a \<and> a < p + length xs then xs ! (a - p) else m a)"

definition Map_setZero :: "addr \<Rightarrow> nat \<Rightarrow> 'a::zero memory \<Rightarrow> 'a memory" where
  "Map_setZero p n m = (\<lambda>a. if p \<le> a \<and> a < p + n then 0 else m a)"

section \<open>The product of a self-adjoint view with a dense vector\<close>

text \<open>
  Modelled from the spec: \<^verbatim>\<open>m_mat.selfadjointView<Uplo>() * x\<close> is Eigen's code
  (\<^verbatim>\<open>Eigen/SparseCore\<close>), which is not part of the repository's sources. The spec
  describes it so: "entries are read once and implicitly mirrored across the diagonal
  (the populated triangle's off-diagonal contributions apply to both rows and columns)".
  All definitions of this section are modelled so; they follow Eigen's
  \<^verbatim>\<open>sparse_selfadjoint_time_dense_product\<close> (\<^verbatim>\<open>SparseSelfAdjointView.h\<close>), which does
  exactly that, one outer vector at a time, directly in the memory of the two
  buffers: with \<open>first\<close> the stored entries in front of the diagonal are the selected
  triangle, otherwise those behind it.
\<close>

definition ProcessFirstHalf :: "UpLoType \<Rightarrow> 'a SparseMatrix \<Rightarrow> bool" where
  "ProcessFirstHalf Mode lhs =
     ((Mode = Upper \<and> \<not> IsRowMajor lhs) \<or> (Mode = Lower \<and> IsRowMajor lhs))"

text \<open>\<^verbatim>\<open>while (i && i.index() < j) ++i;\<close>\<close>

fun skip_below :: "nat \<Rightarrow> (nat \<times> 'a) list \<Rightarrow> (nat \<times> 'a) list" where
  "skip_below j [] = []"
| "skip_below j ((k, v) # es) = (if k < j then skip_below j es else (k, v) # es)"

text \<open>
  The inner loop \<^verbatim>\<open>for (; (ProcessFirstHalf ? i && i.index() < j : i); ++i)\<close>: every
  entry adds to the accumulator \<open>res_j\<close> of row \<open>j\<close> and scatters into row \<open>i.index()\<close>.
  It returns the iterator where the loop stopped, the accumulator and the memory.
\<close>

fun scatter_gather ::
  "bool \<Rightarrow> nat \<Rightarrow> addr \<Rightarrow> addr \<Rightarrow> 'a::comm_ring_1 \<Rightarrow> (nat \<times> 'a) list \<Rightarrow> 'a \<Rightarrow> 'a memory
     \<Rightarrow> (nat \<times> 'a) list \<times> 'a \<times> 'a memory" where
  "scatter_gather first j rhs res rhs_j [] res_j m = ([], res_j, m)"
| "scatter_gather first j rhs res rhs_j ((k, v) # es) res_j m =
     (if first \<and> \<not> k < j then ((k, v) # es, res_j, m)
      else scatter_gather first j rhs res rhs_j es (res_j + v * m (rhs + k))
             (m(res + k := m (res + k) + v * rhs_j)))"

text \<open>The diagonal coefficient, when the iterator stands on it.\<close>

definition add_diagonal ::
  "nat \<Rightarrow> addr \<Rightarrow> addr \<Rightarrow> 'a::comm_ring_1 \<Rightarrow> (nat \<times> 'a) list \<Rightarrow> 'a memory \<Rightarrow> 'a memory" where
  "add_diagonal j rhs res alpha i m =
     (case i of
        [] \<Rightarrow> m
      | (k, v) # _ \<Rightarrow>
          if k = j then m(res + j := m (res + j) + alpha * v * m (rhs + j)) else m)"

text \<open>The body of the loop over the outer index \<open>j\<close>.\<close>

definition process_outer ::
  "bool \<Rightarrow> addr \<Rightarrow> addr \<Rightarrow> 'a::comm_ring_1 \<Rightarrow> nat \<Rightarrow> (nat \<times> 'a) list \<Rightarrow> 'a memory \<Rightarrow> 'a memory" where
  "process_outer first rhs res alpha j es m =
     (let i0 = (if first then es else skip_below j es);
          m1 = (if first then m else add_diagonal j rhs res alpha i0 m);
          i1 = (if first then i0
                else (case i0 of [] \<Rightarrow> [] | (k, v) # rest \<Rightarrow> if k = j then rest else i0));
          rhs_j = alpha * m1 (rhs + j);
          (i2, res_j, m2) = scatter_gather first j rhs res rhs_j i1 0 m1;
          m3 = m2(res + j := m2 (res + j) + alpha * res_j)
      in if first then add_diagonal j rhs res alpha i2 m3 else m3)"

fun outer_loop ::
  "bool \<Rightarrow> addr \<Rightarrow> addr \<Rightarrow> 'a::comm_ring_1 \<Rightarrow> nat \<Rightarrow> (nat \<times> 'a) list list \<Rightarrow> 'a memory \<Rightarrow> 'a memory" where
  "outer_loop first rhs res alpha j [] m = m"
| "outer_loop first rhs res alpha j (es # vs) m =
     outer_loop first rhs res alpha (Suc j) vs (process_outer first rhs res alpha j es m)"

definition sparse_selfadjoint_time_dense_product ::
  "UpLoType \<Rightarrow> 'a::comm_ring_1 SparseMatrix \<Rightarrow> addr \<Rightarrow> addr \<Rightarrow> 'a \<Rightarrow> 'a memory \<Rightarrow> 'a memory" where
  "sparse_selfadjoint_time_dense_product Mode lhs rhs res alpha m =
     outer_loop (ProcessFirstHalf Mode lhs) rhs res alpha 0 (m_vectors lhs) m"

text \<open>
  \<^verbatim>\<open>y.noalias() = view * x\<close>: without a temporary, the destination is set to zero and
  the product is added to it in place.
\<close>

definition selfadjoint_evalTo ::
  "UpLoType \<Rightarrow> 'a::comm_ring_1 SparseMatrix \<Rightarrow> addr \<Rightarrow> addr \<Rightarrow> nat \<Rightarrow> 'a memory \<Rightarrow> 'a memory" where
  "selfadjoint_evalTo Mode lhs rhs dst n m =
     sparse_selfadjoint_time_dense_product Mode lhs rhs dst 1 (Map_setZero dst n m)"

text \<open>
  The same product between temporaries, as the solver uses it (\<^verbatim>\<open>tmp.noalias() = mat * p\<close>):
  the operand and the result are vectors of their own, here laid out one after the other
  in a scratch memory.
\<close>

definition selfadjoint_times :: "UpLoType \<Rightarrow> 'a::comm_ring_1 SparseMatrix \<Rightarrow> 'a list \<Rightarrow> 'a list" where
  "selfadjoint_times Mode lhs v =
     Map_read (length v) (SparseMatrix_rows lhs)
       (selfadjoint_evalTo Mode lhs 0 (length v) (SparseMatrix_rows lhs)
          (Map_assign 0 v (\<lambda>_. 0)))"

text \<open>
  The dense reference: the full symmetric matrix whose triangle \<open>Mode\<close> is the stored
  one and whose other triangle is its mirror image, and its product with a vector.
\<close>

definition in_triangle :: "UpLoType \<Rightarrow> nat \<Rightarrow> nat \<Rightarrow> bool" where
  "in_triangle Mode r c = (case Mode of Lower \<Rightarrow> c \<le> r | Upper \<Rightarrow> r \<le> c)"

definition mirrored :: "UpLoType \<Rightarrow> 'a::zero SparseMatrix \<Rightarrow> nat \<Rightarrow> nat \<Rightarrow> 'a" where
  "mirrored Mode M r c = (if in_triangle Mode r c then coeff M r c else coeff M c r)"

definition dense_product :: "(nat \<Rightarrow> nat \<Rightarrow> 'a::comm_ring_1) \<Rightarrow> nat \<Rightarrow> (nat \<Rightarrow> 'a) \<Rightarrow> nat \<Rightarrow> 'a" where
  "dense_product B n x r = (\<Sum>c<n. B r c * x c)"


section \<open>The conjugate-gradient solver\<close>

text \<open>
  Modelled from the spec: \<^verbatim>\<open>Eigen::ConjugateGradient<SparseMatrix> m_cg\<close> is Eigen's
  code (\<^verbatim>\<open>Eigen/IterativeLinearSolvers\<close>), not part of the repository's sources. The spec
  calls it "a conjugate-gradient-style solver configured against the matrix at
  construction time", whose "convergence is governed by an internal tolerance and
  iteration cap belonging to the solver state; if the iteration does not converge within
  that cap, the best available approximate result is returned without signaling failure".
  All definitions of this section are modelled so; they follow Eigen 3.3
  (\<^verbatim>\<open>ConjugateGradient.h\<close>, \<^verbatim>\<open>BasicPreconditioners.h\<close>, \<^verbatim>\<open>IterativeSolverBase.h\<close>).
  The class names the matrix type only, so the other
  two template parameters of \<^verbatim>\<open>ConjugateGradient\<close> are Eigen's defaults: the triangle
  \<^verbatim>\<open>Lower\<close> and the preconditioner \<^verbatim>\<open>DiagonalPreconditioner\<close>.
\<close>

text \<open>
  What the solver needs of \<^verbatim>\<open>Scalar\<close> besides arithmetic: \<^verbatim>\<open>NumTraits<Scalar>::epsilon()\<close>,
  \<^verbatim>\<open>std::numeric_limits<Scalar>::min()\<close> and \<^verbatim>\<open>sqrt\<close>.
\<close>

record 'a NumTraits =
  epsilon :: 'a
  min_positive :: 'a
  sqrt_of :: "'a \<Rightarrow> 'a"

text \<open>Dense vectors (\<^verbatim>\<open>Eigen::Matrix<Scalar, Dynamic, 1>\<close>) are lists.\<close>

definition dot :: "'a::comm_ring_1 list \<Rightarrow> 'a list \<Rightarrow> 'a" where
  "dot u v = sum_list (map2 (*) u v)"

definition squaredNorm :: "'a::comm_ring_1 list \<Rightarrow> 'a" where
  "squaredNorm v = dot v v"

definition vec_add :: "'a::comm_ring_1 list \<Rightarrow> 'a list \<Rightarrow> 'a list" where
  "vec_add u v = map2 (+) u v"

definition vec_sub :: "'a::comm_ring_1 list \<Rightarrow> 'a list \<Rightarrow> 'a list" where
  "vec_sub u v = map2 (-) u v"

definition vec_scale :: "'a::comm_ring_1 \<Rightarrow> 'a list \<Rightarrow> 'a list" where
  "vec_scale a v = map ((*) a) v"

text \<open>
  \<^verbatim>\<open>DiagonalPreconditioner::compute\<close>: the inverse of every stored non-zero diagonal
  coefficient, one where there is none. \<^verbatim>\<open>solve\<close> multiplies coefficient-wise.
\<close>

fun seek_index :: "nat \<Rightarrow> (nat \<times> 'a) list \<Rightarrow> (nat \<times> 'a) list" where
  "seek_index j [] = []"
| "seek_index j ((k, v) # es) = (if k \<noteq> j then seek_index j es else (k, v) # es)"

definition invdiag_at :: "nat \<Rightarrow> (nat \<times> 'a::field) list \<Rightarrow> 'a" where
  "invdiag_at j es =
     (case seek_index j es of
        [] \<Rightarrow> 1
      | (k, v) # _ \<Rightarrow> if v \<noteq> 0 then 1 / v else 1)"

definition DiagonalPreconditioner_compute :: "'a::field SparseMatrix \<Rightarrow> 'a list" where
  "DiagonalPreconditioner_compute mat =
     map (\<lambda>j. invdiag_at j (m_vectors mat ! j)) [0..<outerSize mat]"

definition DiagonalPreconditioner_solve :: "'a::field list \<Rightarrow> 'a list \<Rightarrow> 'a list" where
  "DiagonalPreconditioner_solve m_invdiag b = map2 (*) m_invdiag b"

datatype ComputationInfo = Success | NumericalIssue | NoConvergence | InvalidInput

text \<open>
  The solver object. \<open>mp_matrix\<close> refers to the matrix given to \<^verbatim>\<open>compute\<close>, which is
  not copied. \<open>m_error\<close>, \<open>m_iterations\<close> and \<open>m_info\<close> are \<^verbatim>\<open>mutable\<close>: \<^verbatim>\<open>solve\<close>, a
  \<^verbatim>\<open>const\<close> method, writes them. A field the default constructor leaves uninitialised
  is \<open>None\<close>.
\<close>

record 'a ConjugateGradient =
  mp_matrix :: "addr option"
  m_preconditioner :: "'a list"
  m_maxIterations :: int
  m_tolerance :: 'a
  m_error :: "'a option"
  m_iterations :: "int option"
  m_info :: "ComputationInfo option"
  m_isInitialized :: bool
  m_analysisIsOk :: bool
  m_factorizationIsOk :: bool

definition ConjugateGradient_init :: "'a NumTraits \<Rightarrow> 'a ConjugateGradient" where
  "ConjugateGradient_init nt =
     \<lparr> mp_matrix = None, m_preconditioner = [], m_maxIterations = - 1,
       m_tolerance = epsilon nt, m_error = None, m_iterations = None, m_info = None,
       m_isInitialized = False, m_analysisIsOk = False, m_factorizationIsOk = False \<rparr>"

text \<open>The iteration cap: twice the number of columns unless one was set.\<close>

definition maxIterations :: "'a ConjugateGradient \<Rightarrow> 'a SparseMatrix \<Rightarrow> int" where
  "maxIterations cg mat =
     (if m_maxIterations cg < 0 then 2 * int (SparseMatrix_cols mat) else m_maxIterations cg)"

text \<open>
  The loop \<^verbatim>\<open>while (i < maxIters)\<close> of \<^verbatim>\<open>internal::conjugate_gradient\<close>. It returns the
  iterate, the squared norm of the last residual and the number of full iterations.
  The two quotients have a zero denominator only when the iteration breaks down, which
  no symmetric positive definite matrix causes; such a quotient is 0 here and infinite
  or not a number in floating point. None of the concrete runs below has one.
\<close>

function cg_loop ::
  "'a::linordered_field SparseMatrix \<Rightarrow> 'a list \<Rightarrow> 'a \<Rightarrow> int
     \<Rightarrow> 'a list \<Rightarrow> 'a list \<Rightarrow> 'a list \<Rightarrow> 'a \<Rightarrow> int \<Rightarrow> 'a \<Rightarrow> 'a list \<times> 'a \<times> int" where
  "cg_loop mat precond threshold maxIters x residual p absNew i residualNorm2 =
     (if i < maxIters then
        (let tmp = selfadjoint_times Lower mat p;
             alpha = absNew / dot p tmp;
             x' = vec_add x (vec_scale alpha p);
             residual' = vec_sub residual (vec_scale alpha tmp);
             residualNorm2' = squaredNorm residual'
         in if residualNorm2' < threshold then (x', residualNorm2', i)
            else
              (let z = DiagonalPreconditioner_solve precond residual';
                   absOld = absNew;
                   absNew' = dot residual' z;
                   beta = absNew' / absOld;
                   p' = vec_add z (vec_scale beta p)
               in cg_loop mat precond threshold maxIters x' residual' p' absNew' (i + 1)
                    residualNorm2'))
      else (x, residualNorm2, i))"
  by pat_completeness auto
termination
  by (relation "measure (\<lambda>(mat, precond, threshold, maxIters, x, residual, p, absNew, i, r).
        nat (maxIters - i))") auto

declare cg_loop.simps [simp del]

text \<open>
  \<^verbatim>\<open>internal::conjugate_gradient(mat, rhs, x, precond, iters, tol_error)\<close>: the result is
  the new \<open>x\<close>, \<open>iters\<close> and \<open>tol_error\<close>.
\<close>

definition conjugate_gradient ::
  "'a::linordered_field NumTraits \<Rightarrow> 'a SparseMatrix \<Rightarrow> 'a list \<Rightarrow> 'a list \<Rightarrow> 'a list \<Rightarrow> int \<Rightarrow> 'a
     \<Rightarrow> 'a list \<times> int \<times> 'a" where
  "conjugate_gradient nt mat rhs x precond iters tol_error =
     (let tol = tol_error;
          maxIters = iters;
          residual = vec_sub rhs (selfadjoint_times Lower mat x);
          rhsNorm2 = squaredNorm rhs
      in if rhsNorm2 = 0 then (map (\<lambda>_. 0) x, 0, 0)
         else
           (let considerAsZero = min_positive nt;
                threshold = max (tol * tol * rhsNorm2) considerAsZero;
                residualNorm2 = squaredNorm residual
            in if residualNorm2 < threshold then (x, 0, sqrt_of nt (residualNorm2 / rhsNorm2))
               else
                 (let p = DiagonalPreconditioner_solve precond residual;
                      absNew = dot residual p;
                      (x', residualNorm2', i) =
                         cg_loop mat precond threshold maxIters x residual p absNew 0 residualNorm2
                  in (x', i, sqrt_of nt (residualNorm2' / rhsNorm2)))))"


text \<open>
  The world outside the solver object: the caller's matrices, by reference, and the
  scalar memory that holds the caller's buffers. \<open>cg_computes\<close> is a ghost counter of the
  calls of \<^verbatim>\<open>ConjugateGradient::compute\<close>.
\<close>

record 'a world =
  matrices :: "addr \<Rightarrow> 'a SparseMatrix"
  scalars :: "'a memory"
  cg_computes :: nat

text \<open>
  \<^verbatim>\<open>compute(A)\<close>: grab the matrix (a reference), compute the preconditioner from it, set
  the flags.
\<close>

definition ConjugateGradient_compute ::
  "'a::linordered_field ConjugateGradient \<Rightarrow> addr \<Rightarrow> 'a world \<Rightarrow> 'a ConjugateGradient \<times> 'a world" where
  "ConjugateGradient_compute cg A w =
     (cg \<lparr> mp_matrix := Some A,
           m_preconditioner := DiagonalPreconditioner_compute (matrices w A),
           m_isInitialized := True, m_analysisIsOk := True, m_factorizationIsOk := True,
           m_info := Some Success \<rparr>,
      w \<lparr> cg_computes := Suc (cg_computes w) \<rparr>)"

text \<open>
  \<^verbatim>\<open>matrix()\<close>: the matrix the solver refers to; a default-constructed solver refers to
  an empty matrix of its own.
\<close>

definition matrix :: "'a ConjugateGradient \<Rightarrow> 'a world \<Rightarrow> 'a SparseMatrix" where
  "matrix cg w =
     (case mp_matrix cg of
        None \<Rightarrow> \<lparr> IsRowMajor = False, m_innerSize = 0, m_vectors = [] \<rparr>
      | Some A \<Rightarrow> matrices w A)"

text \<open>
  \<^verbatim>\<open>_solve_with_guess_impl(b, x)\<close>: reset the iteration count and the error, run
  \<^verbatim>\<open>conjugate_gradient\<close> on the one column of \<open>b\<close>, record whether the error reached the
  tolerance. Nothing but \<open>m_info\<close> tells a run that converged from one that did not.
\<close>

definition solve_with_guess_impl ::
  "'a::linordered_field NumTraits \<Rightarrow> 'a ConjugateGradient \<Rightarrow> 'a SparseMatrix \<Rightarrow> 'a list \<Rightarrow> 'a list
     \<Rightarrow> 'a ConjugateGradient \<times> 'a list" where
  "solve_with_guess_impl nt cg mat b x =
     (let (x', iters, tol_error) =
            conjugate_gradient nt mat b x (m_preconditioner cg) (maxIterations cg mat)
              (m_tolerance cg)
      in (cg \<lparr> m_iterations := Some iters, m_error := Some tol_error, m_isInitialized := True,
               m_info := Some (if tol_error \<le> m_tolerance cg then Success else NoConvergence) \<rparr>,
          x'))"

text \<open>
  \<^verbatim>\<open>y.noalias() = m_cg.solve(x)\<close> evaluates \<^verbatim>\<open>_solve_impl(b, dest)\<close> on the two maps
  directly: the destination is set to zero, then the right-hand side is read (both of
  its reads come before the first update of the destination), and the iterate ends up
  in the destination.
\<close>

definition ConjugateGradient_solve_into ::
  "'a::linordered_field NumTraits \<Rightarrow> 'a ConjugateGradient \<Rightarrow> addr \<Rightarrow> addr \<Rightarrow> nat \<Rightarrow> 'a world
     \<Rightarrow> 'a ConjugateGradient \<times> 'a world" where
  "ConjugateGradient_solve_into nt cg b dest n w =
     (let m0 = Map_setZero dest n (scalars w);
          (cg', x') = solve_with_guess_impl nt cg (matrix cg w)
                        (Map_read b n m0) (Map_read dest n m0)
      in (cg', w \<lparr> scalars := Map_assign dest x' m0 \<rparr>))"

section \<open>The class SparseRegularInverse\<close>

text \<open>
  The members \<^verbatim>\<open>const int m_n\<close>, \<^verbatim>\<open>const SparseMatrix& m_mat\<close> and
  \<^verbatim>\<open>Eigen::ConjugateGradient<SparseMatrix> m_cg\<close>. The template parameters \<^verbatim>\<open>Scalar\<close>
  and \<^verbatim>\<open>Uplo\<close> are arguments of the functions that depend on them: \<open>nt\<close> where the solver
  is built or run, \<open>Uplo\<close> in \<open>mat_prod\<close> only, as in the source.
\<close>

record 'a SparseRegularInverse =
  m_n :: int
  m_mat :: addr
  m_cg :: "'a ConjugateGradient"

datatype error = invalid_argument string

text \<open>
  \<^verbatim>\<open>m_n(mat_.rows())\<close> converts an \<^verbatim>\<open>Eigen::Index\<close> to \<^verbatim>\<open>int\<close>: the value modulo \<open>2\<^sup>3\<^sup>2\<close>
  in the range of \<^verbatim>\<open>int\<close>, which is the value itself below \<open>2\<^sup>3\<^sup>1\<close>.
\<close>

definition int_of_Index :: "int \<Rightarrow> int" where
  "int_of_Index i = (i + 2 ^ 31) mod 2 ^ 32 - 2 ^ 31"

text \<open>
  The constructor: the members are initialised (\<^verbatim>\<open>m_cg\<close> by its default constructor),
  then the body checks that the matrix is square and only then runs \<^verbatim>\<open>m_cg.compute\<close>.
  A throw leaves no object.
\<close>

definition SparseRegularInverse_new ::
  "'a::linordered_field NumTraits \<Rightarrow> addr \<Rightarrow> 'a world \<Rightarrow> (error + 'a SparseRegularInverse) \<times> 'a world" where
  "SparseRegularInverse_new nt mat w =
     (let this = \<lparr> m_n = int_of_Index (int (SparseMatrix_rows (matrices w mat))), m_mat = mat,
                   m_cg = ConjugateGradient_init nt \<rparr>
      in if SparseMatrix_rows (matrices w mat) \<noteq> SparseMatrix_cols (matrices w mat)
         then (Inl (invalid_argument ''SparseRegularInverse: matrix must be square''), w)
         else (let (cg, w') = ConjugateGradient_compute (m_cg this) mat w
               in (Inr (this \<lparr> m_cg := cg \<rparr>), w')))"

definition rows :: "'a SparseRegularInverse \<Rightarrow> int" where
  "rows this = m_n this"

definition cols :: "'a SparseRegularInverse \<Rightarrow> int" where
  "cols this = m_n this"

text \<open>
  \<^verbatim>\<open>solve\<close> is \<^verbatim>\<open>const\<close>, but \<^verbatim>\<open>m_cg.solve\<close> writes the solver's mutable members, so the
  object is returned with the world. Both methods view \<^verbatim>\<open>m_n\<close> cells of each buffer; a
  negative \<^verbatim>\<open>m_n\<close> (a dimension that wrapped) is no size that \<^verbatim>\<open>Eigen::Map\<close> accepts, and
  the maps then view no cell here.
\<close>

definition solve ::
  "'a::linordered_field NumTraits \<Rightarrow> 'a SparseRegularInverse \<Rightarrow> addr \<Rightarrow> addr \<Rightarrow> 'a world
     \<Rightarrow> 'a SparseRegularInverse \<times> 'a world" where
  "solve nt this x_in y_out w =
     (let (cg, w') = ConjugateGradient_solve_into nt (m_cg this) x_in y_out (nat (m_n this)) w
      in (this \<lparr> m_cg := cg \<rparr>, w'))"

definition mat_prod ::
  "UpLoType \<Rightarrow> 'a::linordered_field SparseRegularInverse \<Rightarrow> addr \<Rightarrow> addr \<Rightarrow> 'a world \<Rightarrow> 'a world" where
  "mat_prod Uplo this x_in y_out w =
     w \<lparr> scalars := selfadjoint_evalTo Uplo (matrices w (m_mat this)) x_in y_out
                       (nat (m_n this)) (scalars w) \<rparr>"

text \<open>
  A caller of the public interface after construction: one call of a method on the
  object, which throws (\<open>Inl\<close>) or returns a value with the object and the world as the
  call leaves them; and a sequence of such calls.
\<close>

datatype call = Rows | Cols | Solve addr addr | MatProd addr addr

datatype retval = VoidVal | IntVal int

definition invoke ::
  "'a::linordered_field NumTraits \<Rightarrow> UpLoType \<Rightarrow> call \<Rightarrow> 'a SparseRegularInverse \<times> 'a world
     \<Rightarrow> error + (retval \<times> 'a SparseRegularInverse \<times> 'a world)" where
  "invoke nt Uplo c s =
     (case s of (this, w) \<Rightarrow>
        (case c of
           Rows \<Rightarrow> Inr (IntVal (rows this), this, w)
         | Cols \<Rightarrow> Inr (IntVal (cols this), this, w)
         | Solve x_in y_out \<Rightarrow> Inr (VoidVal, solve nt this x_in y_out w)
         | MatProd x_in y_out \<Rightarrow> Inr (VoidVal, this, mat_prod Uplo this x_in y_out w)))"

fun run ::
  "'a::linordered_field NumTraits \<Rightarrow> UpLoType \<Rightarrow> call list \<Rightarrow> 'a SparseRegularInverse \<times> 'a world
     \<Rightarrow> 'a SparseRegularInverse \<times> 'a world" where
  "run nt Uplo [] s = s"
| "run nt Uplo (c # cs) s =
     (case invoke nt Uplo c s of
        Inl e \<Rightarrow> s
      | Inr (v, s') \<Rightarrow> run nt Uplo cs s')"

text \<open>
  The state \<^emph>\<open>Ready\<close> of the spec: what the constructor establishes about an object and
  the matrix it borrows, as long as the caller leaves that matrix alone.
\<close>

definition Ready :: "'a::linordered_field SparseRegularInverse \<Rightarrow> 'a world \<Rightarrow> bool" where
  "Ready this w =
     (m_n this = int (SparseMatrix_rows (matrices w (m_mat this))) \<and>
      SparseMatrix_rows (matrices w (m_mat this)) = SparseMatrix_cols (matrices w (m_mat this)) \<and>
      mp_matrix (m_cg this) = Some (m_mat this) \<and>
      m_preconditioner (m_cg this) = DiagonalPreconditioner_compute (matrices w (m_mat this)) \<and>
      m_maxIterations (m_cg this) < 0 \<and>
      m_isInitialized (m_cg this))"

section \<open>The in-place product is the dense product with the mirrored matrix\<close>

text \<open>
  What one pass of the inner loop gathers into row \<open>j\<close>, and the coefficient it scatters
  into a row \<open>i\<close>, as sums over the stored entries.
\<close>

definition gather :: "(nat \<Rightarrow> 'a::comm_ring_1) \<Rightarrow> (nat \<times> 'a) list \<Rightarrow> 'a" where
  "gather x es = (\<Sum>e\<leftarrow>es. snd e * x (fst e))"

definition coefsum :: "(nat \<times> 'a::comm_ring_1) list \<Rightarrow> nat \<Rightarrow> 'a" where
  "coefsum es i = (\<Sum>e\<leftarrow>es. if fst e = i then snd e else 0)"

lemma gather_Nil: "gather x [] = 0" by (simp add: gather_def)
lemma gather_Cons: "gather x (e # es) = snd e * x (fst e) + gather x es" by (simp add: gather_def)
lemma coefsum_Nil: "coefsum [] i = 0" by (simp add: coefsum_def)
lemma coefsum_Cons: "coefsum (e # es) i = (if fst e = i then snd e else 0) + coefsum es i"
  by (simp add: coefsum_def)

lemma gather_cong: "(\<And>e. e \<in> set es \<Longrightarrow> x (fst e) = y (fst e)) \<Longrightarrow> gather x es = gather y es"
  by (induction es) (auto simp: gather_Cons gather_Nil)

lemma scatter_gather_all:
  assumes "\<forall>e\<in>set es. \<forall>e'\<in>set es. rhs + fst e \<noteq> res + fst e'"
  shows "scatter_gather False j rhs res rhs_j es acc m =
     ([], acc + gather (\<lambda>k. m (rhs + k)) es,
      \<lambda>a. m a + (if res \<le> a then coefsum es (a - res) * rhs_j else 0))"
  using assms
proof (induction es arbitrary: acc m)
  case Nil
  show ?case by (simp add: gather_Nil coefsum_Nil fun_eq_iff)
next
  case (Cons e es)
  obtain k v where e: "e = (k, v)" by (cases e)
  let ?m = "m(res + k := m (res + k) + v * rhs_j)"
  have disj: "\<forall>e\<in>set es. \<forall>e'\<in>set es. rhs + fst e \<noteq> res + fst e'"
    using Cons.prems by simp
  have g: "gather (\<lambda>k'. ?m (rhs + k')) es = gather (\<lambda>k'. m (rhs + k')) es"
  proof (rule gather_cong)
    fix e' assume "e' \<in> set es"
    then have "rhs + fst e' \<noteq> res + k" using Cons.prems by (simp add: e)
    then show "?m (rhs + fst e') = m (rhs + fst e')" by simp
  qed
  have step: "scatter_gather False j rhs res rhs_j (e # es) acc m =
        scatter_gather False j rhs res rhs_j es (acc + v * m (rhs + k)) ?m"
    by (simp add: e)
  show ?case
    unfolding step Cons.IH[OF disj] g
    by (auto simp: e gather_Cons coefsum_Cons algebra_simps fun_eq_iff)
qed

lemma scatter_gather_first:
  assumes "\<forall>e\<in>set es. \<forall>e'\<in>set es. rhs + fst e \<noteq> res + fst e'"
    and "sorted_wrt (<) (map fst es)"
  shows "scatter_gather True j rhs res rhs_j es acc m =
     (filter (\<lambda>e. j \<le> fst e) es,
      acc + gather (\<lambda>k. m (rhs + k)) (filter (\<lambda>e. fst e < j) es),
      \<lambda>a. m a + (if res \<le> a then coefsum (filter (\<lambda>e. fst e < j) es) (a - res) * rhs_j else 0))"
  using assms
proof (induction es arbitrary: acc m)
  case Nil
  show ?case by (simp add: gather_Nil coefsum_Nil fun_eq_iff)
next
  case (Cons e es)
  obtain k v where e: "e = (k, v)" by (cases e)
  have later: "\<forall>e'\<in>set es. k < fst e'" using Cons.prems(2) by (auto simp: e)
  show ?case
  proof (cases "k < j")
    case False
    have "filter (\<lambda>e. j \<le> fst e) es = es" "filter (\<lambda>e. fst e < j) es = []"
      using later False by (auto simp: filter_id_conv filter_empty_conv)
    then show ?thesis using False by (simp add: e gather_Nil coefsum_Nil fun_eq_iff)
  next
    case True
    let ?m = "m(res + k := m (res + k) + v * rhs_j)"
    let ?T = "filter (\<lambda>e. fst e < j) es"
    have disj: "\<forall>e\<in>set es. \<forall>e'\<in>set es. rhs + fst e \<noteq> res + fst e'"
      using Cons.prems by simp
    have sorted: "sorted_wrt (<) (map fst es)" using Cons.prems by simp
    have g: "gather (\<lambda>k'. ?m (rhs + k')) ?T = gather (\<lambda>k'. m (rhs + k')) ?T"
    proof (rule gather_cong)
      fix e' assume "e' \<in> set ?T"
      then have "rhs + fst e' \<noteq> res + k" using Cons.prems by (simp add: e)
      then show "?m (rhs + fst e') = m (rhs + fst e')" by simp
    qed
    have step: "scatter_gather True j rhs res rhs_j (e # es) acc m =
          scatter_gather True j rhs res rhs_j es (acc + v * m (rhs + k)) ?m"
      using True by (simp add: e)
    show ?thesis
      unfolding step Cons.IH[OF disj sorted] g
      using True
      by (auto simp: e gather_Cons coefsum_Cons algebra_simps fun_eq_iff)
  qed
qed

lemma vec_coeff_notin: "k \<notin> fst ` set es \<Longrightarrow> vec_coeff es k = 0"
  by (simp add: vec_coeff_def map_of_eq_None_iff[THEN iffD2])

lemma vec_coeff_Cons: "vec_coeff (e # es) k = (if fst e = k then snd e else vec_coeff es k)"
  by (cases e) (auto simp: vec_coeff_def)

lemma coefsum_notin: "i \<notin> fst ` set es \<Longrightarrow> coefsum es i = 0"
  by (induction es) (auto simp: coefsum_Nil coefsum_Cons)

lemma coefsum_filter:
  "distinct (map fst es) \<Longrightarrow>
   coefsum (filter (\<lambda>e. p (fst e)) es) i = (if p i then vec_coeff es i else 0)"
proof (induction es)
  case Nil
  show ?case by (simp add: coefsum_Nil vec_coeff_def)
next
  case (Cons e es)
  then have notin: "fst e \<notin> fst ` set es" and d: "distinct (map fst es)" by auto
  show ?case
    using Cons.IH[OF d] vec_coeff_notin[OF notin]
    by (auto simp: coefsum_Cons vec_coeff_Cons)
qed

lemma gather_coefsum:
  "\<forall>e\<in>set es. fst e < n \<Longrightarrow> gather x es = (\<Sum>k<n. coefsum es k * x k)"
proof (induction es)
  case Nil
  show ?case by (simp add: gather_Nil coefsum_Nil)
next
  case (Cons e es)
  have lt: "fst e < n" using Cons.prems by simp
  have "(\<Sum>k<n. coefsum (e # es) k * x k)
      = (\<Sum>k<n. (if fst e = k then snd e * x k else 0) + coefsum es k * x k)"
    by (rule sum.cong) (auto simp: coefsum_Cons algebra_simps)
  also have "\<dots> = (\<Sum>k<n. if fst e = k then snd e * x k else 0) + (\<Sum>k<n. coefsum es k * x k)"
    by (simp add: sum.distrib)
  also have "(\<Sum>k<n. if fst e = k then snd e * x k else 0) = snd e * x (fst e)"
    using lt by (simp add: sum.delta')
  finally show ?case using Cons by (simp add: gather_Cons)
qed

lemma gather_filter:
  assumes "distinct (map fst es)" "\<forall>e\<in>set es. fst e < n"
  shows "gather x (filter (\<lambda>e. p (fst e)) es) = (\<Sum>k<n. if p k then vec_coeff es k * x k else 0)"
proof -
  have "gather x (filter (\<lambda>e. p (fst e)) es) = (\<Sum>k<n. coefsum (filter (\<lambda>e. p (fst e)) es) k * x k)"
    using assms(2) by (intro gather_coefsum) auto
  also have "\<dots> = (\<Sum>k<n. if p k then vec_coeff es k * x k else 0)"
    by (rule sum.cong) (auto simp: coefsum_filter[OF assms(1)])
  finally show ?thesis .
qed

lemma sorted_keys_distinct: "sorted_wrt (<) (map fst es) \<Longrightarrow> distinct (map fst (es :: (nat \<times> 'a) list))"
  by (rule strict_sorted_iff[THEN iffD1, THEN conjunct2]) 

lemma skip_below_filter:
  "sorted_wrt (<) (map fst es) \<Longrightarrow> skip_below j es = filter (\<lambda>e. j \<le> fst e) es"
proof (induction es)
  case Nil
  show ?case by simp
next
  case (Cons e es)
  obtain k v where e: "e = (k, v)" by (cases e)
  show ?case
  proof (cases "k < j")
    case True
    then show ?thesis using Cons by (simp add: e)
  next
    case False
    have "\<forall>e'\<in>set es. j \<le> fst e'" using Cons.prems False by (auto simp: e)
    then have "filter (\<lambda>e. j \<le> fst e) es = es" by (simp add: filter_id_conv)
    then show ?thesis using False by (simp add: e)
  qed
qed

lemma dropWhile_below_filter:
  "sorted_wrt (<) (map fst (es :: (nat \<times> 'a) list)) \<Longrightarrow> dropWhile (\<lambda>e. fst e < j) es = filter (\<lambda>e. j \<le> fst e) es"
proof (induction es)
  case Nil
  show ?case by simp
next
  case (Cons e es)
  show ?case
  proof (cases "fst e < j")
    case True
    then show ?thesis using Cons by simp
  next
    case False
    have "\<forall>e'\<in>set es. j \<le> fst e'" using Cons.prems False by auto
    then have "filter (\<lambda>e. j \<le> fst e) es = es" by (simp add: filter_id_conv)
    then show ?thesis using False by simp
  qed
qed

lemma takeWhile_below_filter:
  "sorted_wrt (<) (map fst (es :: (nat \<times> 'a) list)) \<Longrightarrow> takeWhile (\<lambda>e. fst e < j) es = filter (\<lambda>e. fst e < j) es"
proof (induction es)
  case Nil
  show ?case by simp
next
  case (Cons e es)
  show ?case
  proof (cases "fst e < j")
    case True
    then show ?thesis using Cons by simp
  next
    case False
    have "\<forall>e'\<in>set es. \<not> fst e' < j" using Cons.prems False by auto
    then have "filter (\<lambda>e. fst e < j) es = []" by (simp add: filter_empty_conv)
    then show ?thesis using False by simp
  qed
qed

lemma from_diagonal_split:
  "sorted_wrt (<) (map fst es) \<Longrightarrow>
   filter (\<lambda>e. j \<le> fst e) es =
     (if j \<in> fst ` set es then [(j, vec_coeff es j)] else []) @ filter (\<lambda>e. j < fst e) es"
proof (induction es)
  case Nil
  show ?case by simp
next
  case (Cons e es)
  obtain k v where e: "e = (k, v)" by (cases e)
  have later: "\<forall>e'\<in>set es. k < fst e'" using Cons.prems by (auto simp: e)
  consider "k < j" | "k = j" | "j < k" by linarith
  then show ?case
  proof cases
    case 1
    then show ?thesis using Cons by (auto simp: e vec_coeff_Cons)
  next
    case 2
    have "filter (\<lambda>e. j \<le> fst e) es = es" "filter (\<lambda>e. j < fst e) es = es"
      using later 2 by (auto simp: filter_id_conv intro: less_imp_le)
    then show ?thesis using 2 by (simp add: e vec_coeff_Cons)
  next
    case 3
    have "filter (\<lambda>e. j \<le> fst e) es = es" "filter (\<lambda>e. j < fst e) es = es"
      using later 3 by (auto simp: filter_id_conv)
    moreover have "j \<notin> fst ` set es" using later 3 by auto
    ultimately show ?thesis using 3 by (simp add: e)
  qed
qed


text \<open>
  Two buffers of \<open>n\<close> cells that do not overlap: the caller allocates the input and the
  output vector separately, and \<^verbatim>\<open>noalias()\<close> relies on it.
\<close>

definition separate :: "addr \<Rightarrow> addr \<Rightarrow> nat \<Rightarrow> bool" where
  "separate p q n = (p + n \<le> q \<or> q + n \<le> p)"

text \<open>What the outer vector \<open>j\<close> adds to row \<open>i\<close> of the result.\<close>

definition outer_contrib ::
  "bool \<Rightarrow> nat \<Rightarrow> nat \<Rightarrow> (nat \<times> 'a::comm_ring_1) list \<Rightarrow> (nat \<Rightarrow> 'a) \<Rightarrow> nat \<Rightarrow> 'a" where
  "outer_contrib first n j es x i =
     (if i = j then (\<Sum>k<n. if (if first then k \<le> j else j \<le> k) then vec_coeff es k * x k else 0)
      else if (if first then i < j else j < i) then vec_coeff es i * x j else 0)"

lemma add_diagonal_from:
  assumes "sorted_wrt (<) (map fst es)"
  shows "add_diagonal j rhs res alpha (filter (\<lambda>e. j \<le> fst e) es) m =
         m(res + j := m (res + j) + alpha * vec_coeff es j * m (rhs + j))"
proof (cases "j \<in> fst ` set es")
  case True
  then show ?thesis
    by (simp add: from_diagonal_split[OF assms] add_diagonal_def)
next
  case False
  have "add_diagonal j rhs res alpha (filter (\<lambda>e. j < fst e) es) m = m"
  proof (cases "filter (\<lambda>e. j < fst e) es")
    case Nil
    then show ?thesis by (simp add: add_diagonal_def)
  next
    case (Cons e es')
    then have "e \<in> set (filter (\<lambda>e. j < fst e) es)" by simp
    then have "j < fst e" by simp
    then show ?thesis using Cons by (cases e) (simp add: add_diagonal_def)
  qed
  then show ?thesis
    using False by (simp add: from_diagonal_split[OF assms] vec_coeff_notin)
qed

lemma after_diagonal:
  assumes "sorted_wrt (<) (map fst (es :: (nat \<times> 'a::zero) list))"
  shows "(case filter (\<lambda>e. j \<le> fst e) es of [] \<Rightarrow> []
          | (k, v) # rest \<Rightarrow> if k = j then rest else filter (\<lambda>e. j \<le> fst e) es)
         = filter (\<lambda>e. j < fst e) es"
proof (cases "j \<in> fst ` set es")
  case True
  then show ?thesis by (simp add: from_diagonal_split[OF assms])
next
  case False
  have eq: "filter (\<lambda>e. j \<le> fst e) es = filter (\<lambda>e. j < fst e) es"
    using False by (simp add: from_diagonal_split[OF assms])
  show ?thesis
  proof (cases "filter (\<lambda>e. j < fst e) es")
    case Nil
    then show ?thesis by (simp add: eq)
  next
    case (Cons e es')
    then have "e \<in> set (filter (\<lambda>e. j < fst e) es)" by simp
    then have "j < fst e" by simp
    then show ?thesis using Cons by (cases e) (simp add: eq)
  qed
qed

lemma sum_from_diagonal:
  fixes f :: "nat \<Rightarrow> 'a::comm_ring_1"
  assumes "j < n"
  shows "(\<Sum>k<n. if j \<le> k then f k else 0) = f j + (\<Sum>k<n. if j < k then f k else 0)"
proof -
  have "(\<Sum>k<n. if j \<le> k then f k else 0)
      = (\<Sum>k<n. (if j = k then f k else 0) + (if j < k then f k else 0))"
    by (rule sum.cong) auto
  also have "\<dots> = (\<Sum>k<n. if j = k then f k else 0) + (\<Sum>k<n. if j < k then f k else 0)"
    by (simp add: sum.distrib)
  also have "(\<Sum>k<n. if j = k then f k else 0) = f j"
    using assms by (simp add: sum.delta')
  finally show ?thesis .
qed

lemma sum_upto_diagonal:
  fixes f :: "nat \<Rightarrow> 'a::comm_ring_1"
  assumes "j < n"
  shows "(\<Sum>k<n. if k \<le> j then f k else 0) = f j + (\<Sum>k<n. if k < j then f k else 0)"
proof -
  have "(\<Sum>k<n. if k \<le> j then f k else 0)
      = (\<Sum>k<n. (if j = k then f k else 0) + (if k < j then f k else 0))"
    by (rule sum.cong) auto
  also have "\<dots> = (\<Sum>k<n. if j = k then f k else 0) + (\<Sum>k<n. if k < j then f k else 0)"
    by (simp add: sum.distrib)
  also have "(\<Sum>k<n. if j = k then f k else 0) = f j"
    using assms by (simp add: sum.delta')
  finally show ?thesis .
qed

lemma separate_neq: "separate rhs res n \<Longrightarrow> a < n \<Longrightarrow> b < n \<Longrightarrow> rhs + a \<noteq> res + b"
  by (auto simp: separate_def)

lemma process_outer_second:
  assumes ok: "inner_ok n es" and j: "j < n" and sep: "separate rhs res n"
  shows "process_outer False rhs res alpha j es m =
     (\<lambda>a. m a + (if res \<le> a \<and> a < res + n
                  then alpha * outer_contrib False n j es (\<lambda>k. m (rhs + k)) (a - res) else 0))"
proof -
  let ?x = "\<lambda>k. m (rhs + k)"
  let ?A = "filter (\<lambda>e. j < fst e) es"
  let ?m1 = "m(res + j := m (res + j) + alpha * vec_coeff es j * m (rhs + j))"
  have sorted: "sorted_wrt (<) (map fst es)" and keys: "\<forall>e\<in>set es. fst e < n"
    using ok by (auto simp: inner_ok_def list_all_iff)
  have dist: "distinct (map fst es)" by (rule sorted_keys_distinct[OF sorted])
  have disjA: "\<forall>e\<in>set ?A. \<forall>e'\<in>set ?A. rhs + fst e \<noteq> res + fst e'"
  proof (intro ballI)
    fix e e' assume "e \<in> set ?A" "e' \<in> set ?A"
    then have "fst e < n" "fst e' < n" using keys by auto
    then show "rhs + fst e \<noteq> res + fst e'" by (rule separate_neq[OF sep])
  qed
  have rj: "rhs \<noteq> res"
    using separate_neq[OF sep j j] by simp
  have g: "gather (\<lambda>k. ?m1 (rhs + k)) ?A = gather ?x ?A"
  proof (rule gather_cong)
    fix e assume "e \<in> set ?A"
    then have "fst e < n" using keys by simp
    then show "?m1 (rhs + fst e) = m (rhs + fst e)"
      using separate_neq[OF sep _ j] by simp
  qed
  have gA: "gather ?x ?A = (\<Sum>k<n. if j < k then vec_coeff es k * ?x k else 0)"
    by (rule gather_filter[OF dist keys])
  have cA: "\<And>i. coefsum ?A i = (if j < i then vec_coeff es i else 0)"
    by (rule coefsum_filter[OF dist])
  have out: "\<And>a. \<not> a < res + n \<Longrightarrow> res \<le> a \<Longrightarrow> vec_coeff es (a - res) = 0"
  proof (rule vec_coeff_notin)
    fix a assume "\<not> a < res + n" "res \<le> a"
    then have "\<not> a - res < n" by arith
    then show "a - res \<notin> fst ` set es" using keys by auto
  qed
  have sg: "scatter_gather False j rhs res (alpha * m (rhs + j)) ?A 0 ?m1 =
      ([], gather ?x ?A,
       \<lambda>a. ?m1 a + (if res \<le> a then coefsum ?A (a - res) * (alpha * m (rhs + j)) else 0))"
    unfolding scatter_gather_all[OF disjA] g by simp
  have "process_outer False rhs res alpha j es m =
        (let (i2, res_j, m2) = scatter_gather False j rhs res (alpha * m (rhs + j)) ?A 0 ?m1
         in m2(res + j := m2 (res + j) + alpha * res_j))"
    by (simp add: process_outer_def skip_below_filter[OF sorted] add_diagonal_from[OF sorted]
        after_diagonal[OF sorted] rj Let_def)
  also have "\<dots> = (\<lambda>a. m a + (if res \<le> a \<and> a < res + n
                  then alpha * outer_contrib False n j es ?x (a - res) else 0))"
  proof (rule ext)
    fix a
    consider "a = res + j" | "a \<noteq> res + j" "res \<le> a" "a < res + n"
      | "res \<le> a" "\<not> a < res + n" | "\<not> res \<le> a" by blast
    then show "(let (i2, res_j, m2) = scatter_gather False j rhs res (alpha * m (rhs + j)) ?A 0 ?m1
         in m2(res + j := m2 (res + j) + alpha * res_j)) a
       = m a + (if res \<le> a \<and> a < res + n
                  then alpha * outer_contrib False n j es ?x (a - res) else 0)"
    proof cases
      case 1
      then show ?thesis
        unfolding sg
        using j by (simp add: gA cA outer_contrib_def sum_from_diagonal[OF j] distrib_left mult.assoc)
    next
      case 2
      then have "a - res \<noteq> j" by arith
      then show ?thesis
        unfolding sg
        using 2 by (simp add: cA outer_contrib_def mult_ac)
    next
      case 3
      then have "a \<noteq> res + j" using j by arith
      then show ?thesis
        unfolding sg
        using 3 out[of a] by (simp add: cA)
    next
      case 4
      then have "a \<noteq> res + j" by arith
      then show ?thesis
        unfolding sg
        using 4 by simp
    qed
  qed
  finally show ?thesis .
qed


lemma process_outer_first:
  assumes ok: "inner_ok n es" and j: "j < n" and sep: "separate rhs res n"
  shows "process_outer True rhs res alpha j es m =
     (\<lambda>a. m a + (if res \<le> a \<and> a < res + n
                  then alpha * outer_contrib True n j es (\<lambda>k. m (rhs + k)) (a - res) else 0))"
proof -
  let ?x = "\<lambda>k. m (rhs + k)"
  let ?T = "filter (\<lambda>e. fst e < j) es"
  let ?D = "filter (\<lambda>e. j \<le> fst e) es"
  let ?m2 = "\<lambda>a. m a + (if res \<le> a then coefsum ?T (a - res) * (alpha * m (rhs + j)) else 0)"
  let ?m3 = "?m2(res + j := ?m2 (res + j) + alpha * (0 + gather ?x ?T))"
  have sorted: "sorted_wrt (<) (map fst es)" and keys: "\<forall>e\<in>set es. fst e < n"
    using ok by (auto simp: inner_ok_def list_all_iff)
  have dist: "distinct (map fst es)" by (rule sorted_keys_distinct[OF sorted])
  have disj: "\<forall>e\<in>set es. \<forall>e'\<in>set es. rhs + fst e \<noteq> res + fst e'"
  proof (intro ballI)
    fix e e' assume "e \<in> set es" "e' \<in> set es"
    then have "fst e < n" "fst e' < n" using keys by auto
    then show "rhs + fst e \<noteq> res + fst e'" by (rule separate_neq[OF sep])
  qed
  have gT: "gather ?x ?T = (\<Sum>k<n. if k < j then vec_coeff es k * ?x k else 0)"
    by (rule gather_filter[OF dist keys])
  have cT: "\<And>i. coefsum ?T i = (if i < j then vec_coeff es i else 0)"
    by (rule coefsum_filter[OF dist])
  have sg: "scatter_gather True j rhs res (alpha * m (rhs + j)) es 0 m = (?D, 0 + gather ?x ?T, ?m2)"
    by (rule scatter_gather_first[OF disj sorted])
  have xj: "?m3 (rhs + j) = m (rhs + j)"
  proof -
    have "rhs + j \<noteq> res + j" by (rule separate_neq[OF sep j j])
    moreover have "res \<le> rhs + j \<Longrightarrow> \<not> rhs + j - res < j"
      using sep j by (auto simp: separate_def)
    ultimately show ?thesis by (simp add: cT)
  qed
  have "process_outer True rhs res alpha j es m = add_diagonal j rhs res alpha ?D ?m3"
    by (simp add: process_outer_def sg Let_def)
  also have "\<dots> = ?m3(res + j := ?m3 (res + j) + alpha * vec_coeff es j * ?m3 (rhs + j))"
    by (rule add_diagonal_from[OF sorted])
  also have "\<dots> = ?m3(res + j := ?m3 (res + j) + alpha * vec_coeff es j * m (rhs + j))"
    unfolding xj ..
  also have "\<dots> = (\<lambda>a. m a + (if res \<le> a \<and> a < res + n
                  then alpha * outer_contrib True n j es ?x (a - res) else 0))"
  proof (rule ext)
    fix a
    consider "a = res + j" | "a \<noteq> res + j" "res \<le> a" "a < res + n"
      | "res \<le> a" "\<not> a < res + n" | "\<not> res \<le> a" by blast
    then show "(?m3(res + j := ?m3 (res + j) + alpha * vec_coeff es j * m (rhs + j))) a
       = m a + (if res \<le> a \<and> a < res + n
                  then alpha * outer_contrib True n j es ?x (a - res) else 0)"
    proof cases
      case 1
      then show ?thesis
        using j by (simp add: gT cT outer_contrib_def sum_upto_diagonal[OF j] distrib_left mult.assoc)
    next
      case 2
      then have "a - res \<noteq> j" by arith
      then show ?thesis
        using 2 by (simp add: cT outer_contrib_def mult_ac)
    next
      case 3
      then have "a \<noteq> res + j" "\<not> a - res < j" using j by arith+
      then show ?thesis
        using 3 by (simp add: cT)
    next
      case 4
      then have "a \<noteq> res + j" by arith
      then show ?thesis
        using 4 by simp
    qed
  qed
  finally show ?thesis .
qed

lemma process_outer_eq:
  assumes "inner_ok n es" "j < n" "separate rhs res n"
  shows "process_outer first rhs res alpha j es m =
     (\<lambda>a. m a + (if res \<le> a \<and> a < res + n
                  then alpha * outer_contrib first n j es (\<lambda>k. m (rhs + k)) (a - res) else 0))"
proof (cases first)
  case True
  then have "first = True" by simp
  show ?thesis unfolding \<open>first = True\<close> by (rule process_outer_first[OF assms])
next
  case False
  then have "first = False" by simp
  show ?thesis unfolding \<open>first = False\<close> by (rule process_outer_second[OF assms])
qed


lemma outer_contrib_cong:
  assumes "\<And>k. k < n \<Longrightarrow> x k = y k" "j < n"
  shows "outer_contrib first n j es x i = outer_contrib first n j es y i"
proof -
  have "(\<Sum>k<n. if (if first then k \<le> j else j \<le> k) then vec_coeff es k * x k else 0)
      = (\<Sum>k<n. if (if first then k \<le> j else j \<le> k) then vec_coeff es k * y k else 0)"
    by (rule sum.cong) (auto simp: assms(1))
  then show ?thesis by (simp add: outer_contrib_def assms)
qed

lemma outer_loop_eq:
  assumes "\<forall>es\<in>set vs. inner_ok n es" "j0 + length vs \<le> n" "separate rhs res n"
  shows "outer_loop first rhs res alpha j0 vs m =
     (\<lambda>a. m a + (if res \<le> a \<and> a < res + n
                  then alpha * (\<Sum>t<length vs. outer_contrib first n (j0 + t) (vs ! t)
                                   (\<lambda>k. m (rhs + k)) (a - res))
                  else 0))"
  using assms(1,2)
proof (induction vs arbitrary: j0 m)
  case Nil
  show ?case by (simp add: fun_eq_iff)
next
  case (Cons es vs)
  let ?x = "\<lambda>k. m (rhs + k)"
  let ?m' = "\<lambda>a. m a + (if res \<le> a \<and> a < res + n
                  then alpha * outer_contrib first n j0 es ?x (a - res) else 0)"
  have ok: "inner_ok n es" and oks: "\<forall>es\<in>set vs. inner_ok n es" using Cons.prems by auto
  have j0: "j0 < n" and len: "Suc j0 + length vs \<le> n" using Cons.prems by auto
  have po: "process_outer first rhs res alpha j0 es m = ?m'"
    by (rule process_outer_eq[OF ok j0 assms(3)])
  have x': "\<And>k. k < n \<Longrightarrow> ?m' (rhs + k) = m (rhs + k)"
    using assms(3) by (auto simp: separate_def)
  have cong: "\<And>t i. t < length vs \<Longrightarrow>
      outer_contrib first n (Suc j0 + t) (vs ! t) (\<lambda>k. ?m' (rhs + k)) i
    = outer_contrib first n (Suc j0 + t) (vs ! t) ?x i"
  proof (rule outer_contrib_cong)
    fix t k assume "k < n" then show "?m' (rhs + k) = m (rhs + k)" by (rule x')
  next
    fix t assume "t < length vs" then show "Suc j0 + t < n" using len by arith
  qed
  have sums: "\<And>i. (\<Sum>t<length vs. outer_contrib first n (Suc j0 + t) (vs ! t) (\<lambda>k. ?m' (rhs + k)) i)
      = (\<Sum>t<length vs. outer_contrib first n (Suc j0 + t) (vs ! t) ?x i)"
    by (rule sum.cong) (auto simp only: cong lessThan_iff)
  have shift: "\<And>i. (\<Sum>t<length (es # vs). outer_contrib first n (j0 + t) ((es # vs) ! t) ?x i)
      = outer_contrib first n j0 es ?x i
        + (\<Sum>t<length vs. outer_contrib first n (Suc j0 + t) (vs ! t) ?x i)"
    by (simp add: sum.lessThan_Suc_shift del: sum.lessThan_Suc)
  have "outer_loop first rhs res alpha j0 (es # vs) m
      = outer_loop first rhs res alpha (Suc j0) vs ?m'"
    by (simp add: po)
  also have "\<dots> = (\<lambda>a. ?m' a + (if res \<le> a \<and> a < res + n
                  then alpha * (\<Sum>t<length vs. outer_contrib first n (Suc j0 + t) (vs ! t)
                                   (\<lambda>k. ?m' (rhs + k)) (a - res))
                  else 0))"
    by (rule Cons.IH[OF oks len])
  also have "\<dots> = (\<lambda>a. m a + (if res \<le> a \<and> a < res + n
                  then alpha * (\<Sum>t<length (es # vs). outer_contrib first n (j0 + t) ((es # vs) ! t)
                                   ?x (a - res))
                  else 0))"
    unfolding sums shift
    by (rule ext) (simp add: distrib_left)
  finally show ?case .
qed


lemma contrib_sum_dense:
  fixes M :: "'a::comm_ring_1 SparseMatrix"
  assumes sq: "outerSize M = n" and i: "i < n"
  shows "(\<Sum>j<n. outer_contrib (ProcessFirstHalf Mode M) n j (m_vectors M ! j) x i)
       = dense_product (mirrored Mode M) n x i"
proof -
  let ?F = "ProcessFirstHalf Mode M"
  let ?vs = "m_vectors M"
  let ?A = "\<lambda>c. if (if ?F then c \<le> i else i \<le> c) then vec_coeff (?vs ! i) c * x c else 0"
  let ?B = "\<lambda>c. if (if ?F then i < c else c < i) then vec_coeff (?vs ! c) i * x c else 0"
  have "(\<Sum>j<n. outer_contrib ?F n j (?vs ! j) x i)
      = (\<Sum>j<n. (if i = j then (\<Sum>c<n. ?A c) else 0) + ?B j)"
    by (rule sum.cong) (auto simp: outer_contrib_def)
  also have "\<dots> = (\<Sum>j<n. if i = j then (\<Sum>c<n. ?A c) else 0) + (\<Sum>j<n. ?B j)"
    by (simp add: sum.distrib)
  also have "(\<Sum>j<n. if i = j then (\<Sum>c<n. ?A c) else 0) = (\<Sum>c<n. ?A c)"
    using i by (simp add: sum.delta')
  also have "(\<Sum>c<n. ?A c) + (\<Sum>j<n. ?B j) = (\<Sum>c<n. ?A c + ?B c)"
    by (simp add: sum.distrib)
  also have "\<dots> = (\<Sum>c<n. mirrored Mode M i c * x c)"
  proof (rule sum.cong)
    fix c assume "c \<in> {..<n}"
    then have c: "c < outerSize M" "i < outerSize M" using sq i by auto
    show "?A c + ?B c = mirrored Mode M i c * x c"
      using c
      by (cases Mode; cases "IsRowMajor M")
         (auto simp: mirrored_def in_triangle_def coeff_def ProcessFirstHalf_def)
  qed simp
  finally show ?thesis by (simp add: dense_product_def)
qed

lemma selfadjoint_evalTo_eq:
  fixes M :: "'a::comm_ring_1 SparseMatrix"
  assumes comp: "compressed M" and outer: "outerSize M = n" and inner: "m_innerSize M = n"
    and sep: "separate rhs dst n"
  shows "selfadjoint_evalTo Mode M rhs dst n m =
     (\<lambda>a. if dst \<le> a \<and> a < dst + n
          then dense_product (mirrored Mode M) n (\<lambda>k. m (rhs + k)) (a - dst) else m a)"
proof -
  let ?m0 = "Map_setZero dst n m"
  let ?F = "ProcessFirstHalf Mode M"
  have oks: "\<forall>es\<in>set (m_vectors M). inner_ok n es"
    using comp inner by (simp add: compressed_def list_all_iff)
  have len: "0 + length (m_vectors M) \<le> n" using outer by (simp add: outerSize_def)
  have x0: "\<And>k. k < n \<Longrightarrow> ?m0 (rhs + k) = m (rhs + k)"
    using sep by (auto simp: Map_setZero_def separate_def)
  have cong: "\<And>j i. j < n \<Longrightarrow>
      outer_contrib ?F n j (m_vectors M ! j) (\<lambda>k. ?m0 (rhs + k)) i
    = outer_contrib ?F n j (m_vectors M ! j) (\<lambda>k. m (rhs + k)) i"
    by (rule outer_contrib_cong) (auto simp only: x0)
  have sums: "\<And>i. (\<Sum>j<n. outer_contrib ?F n (0 + j) (m_vectors M ! j) (\<lambda>k. ?m0 (rhs + k)) i)
      = (\<Sum>j<n. outer_contrib ?F n j (m_vectors M ! j) (\<lambda>k. m (rhs + k)) i)"
    by (rule sum.cong) (auto simp only: cong lessThan_iff add_0)
  have length: "length (m_vectors M) = n" using outer by (simp add: outerSize_def)
  have "selfadjoint_evalTo Mode M rhs dst n m
      = outer_loop ?F rhs dst 1 0 (m_vectors M) ?m0"
    by (simp add: selfadjoint_evalTo_def sparse_selfadjoint_time_dense_product_def)
  also have "\<dots> = (\<lambda>a. ?m0 a + (if dst \<le> a \<and> a < dst + n
                  then 1 * (\<Sum>j<length (m_vectors M). outer_contrib ?F n (0 + j) (m_vectors M ! j)
                                   (\<lambda>k. ?m0 (rhs + k)) (a - dst))
                  else 0))"
    by (rule outer_loop_eq[OF oks len sep])
  also have "\<dots> = (\<lambda>a. if dst \<le> a \<and> a < dst + n
          then dense_product (mirrored Mode M) n (\<lambda>k. m (rhs + k)) (a - dst) else m a)"
  proof (rule ext)
    fix a
    show "?m0 a + (if dst \<le> a \<and> a < dst + n
                  then 1 * (\<Sum>j<length (m_vectors M). outer_contrib ?F n (0 + j) (m_vectors M ! j)
                                   (\<lambda>k. ?m0 (rhs + k)) (a - dst))
                  else 0)
        = (if dst \<le> a \<and> a < dst + n
          then dense_product (mirrored Mode M) n (\<lambda>k. m (rhs + k)) (a - dst) else m a)"
    proof (cases "dst \<le> a \<and> a < dst + n")
      case True
      then have "a - dst < n" by arith
      then show ?thesis
        using True unfolding length sums
        by (simp add: contrib_sum_dense[OF outer] Map_setZero_def)
    next
      case False
      then show ?thesis by (auto simp: Map_setZero_def)
    qed
  qed
  finally show ?thesis .
qed


section \<open>The constructed object\<close>

lemma Ready_dims:
  assumes "Ready this w"
  shows "nat (m_n this) = outerSize (matrices w (m_mat this))"
    and "nat (m_n this) = m_innerSize (matrices w (m_mat this))"
  using assms by (auto simp: Ready_def SparseMatrix_rows_def SparseMatrix_cols_def split: if_splits)

lemma int_of_Index_small: "0 \<le> i \<Longrightarrow> i < 2 ^ 31 \<Longrightarrow> int_of_Index i = i"
  by (simp add: int_of_Index_def)

lemma new_Ready:
  assumes "fst (SparseRegularInverse_new nt mat w) = Inr this"
    and "SparseMatrix_rows (matrices w mat) < 2 ^ 31"
  shows "Ready this (snd (SparseRegularInverse_new nt mat w))"
proof -
  have "int_of_Index (int (SparseMatrix_rows (matrices w mat))) = int (SparseMatrix_rows (matrices w mat))"
    using assms(2) by (intro int_of_Index_small) simp_all
  then show ?thesis
    using assms(1)
    by (auto simp: SparseRegularInverse_new_def ConjugateGradient_compute_def
        ConjugateGradient_init_def Ready_def Let_def split: if_splits)
qed

lemma Map_read_dense:
  "Map_read p n (\<lambda>a. if p \<le> a \<and> a < p + n then f (a - p) else g a) = map f [0..<n]"
  by (simp add: Map_read_def)

lemma solve_keeps_members:
  "m_n (fst (solve nt this x_in y_out w)) = m_n this"
  "m_mat (fst (solve nt this x_in y_out w)) = m_mat this"
  by (simp_all add: solve_def split_beta Let_def)

lemma invoke_keeps_m_n:
  "invoke nt Uplo c (this, w) = Inr (v, this', w') \<Longrightarrow> m_n this' = m_n this \<and> m_mat this' = m_mat this"
proof (cases c)
  case (Solve x_in y_out)
  assume "invoke nt Uplo c (this, w) = Inr (v, this', w')"
  then have "this' = fst (solve nt this x_in y_out w)" by (simp add: invoke_def Solve)
  then show ?thesis by (simp add: solve_keeps_members)
qed (auto simp: invoke_def)

lemma invoke_returns: "\<exists>v this' w'. invoke nt Uplo c (this, w) = Inr (v, this', w')"
  by (cases c) (auto simp: invoke_def intro: prod.exhaust)



lemma length_Map_read: "length (Map_read p n m) = n"
  by (simp add: Map_read_def)

lemma length_selfadjoint_times: "length (selfadjoint_times Mode M v) = SparseMatrix_rows M"
  by (simp add: selfadjoint_times_def length_Map_read)

lemma length_vec_ops:
  "length (vec_add u v) = min (length u) (length v)"
  "length (vec_sub u v) = min (length u) (length v)"
  "length (vec_scale a v) = length v"
  "length (DiagonalPreconditioner_solve d v) = min (length d) (length v)"
  by (simp_all add: vec_add_def vec_sub_def vec_scale_def DiagonalPreconditioner_solve_def)

lemma cg_loop_length:
  assumes "length x = n" "length residual = n" "length p = n" "length precond = n"
    "SparseMatrix_rows mat = n"
  shows "length (fst (cg_loop mat precond threshold maxIters x residual p absNew i r2)) = n"
  using assms
proof (induction mat precond threshold maxIters x residual p absNew i r2 rule: cg_loop.induct)
  case (1 mat precond threshold maxIters x residual p absNew i residualNorm2)
  show ?case
    apply (subst cg_loop.simps)
    using 1
    by (auto simp: Let_def length_vec_ops length_selfadjoint_times)
qed

lemma conjugate_gradient_length:
  assumes "length x = n" "length rhs = n" "length precond = n" "SparseMatrix_rows mat = n"
  shows "length (fst (conjugate_gradient nt mat rhs x precond iters tol)) = n"
  using assms
  by (auto simp: conjugate_gradient_def Let_def split_beta length_vec_ops length_selfadjoint_times
      intro!: cg_loop_length)


lemma Map_read_assign_setZero:
  "Map_read p n (Map_assign p xs (Map_setZero p n m)) =
   map (\<lambda>i. if i < length xs then xs ! i else 0) [0..<n]"
  by (auto simp: Map_read_def Map_assign_def Map_setZero_def)

lemma Map_read_setZero_separate:
  "separate x y n \<Longrightarrow> Map_read x n (Map_setZero y n m) = Map_read x n m"
  by (auto simp: Map_read_def Map_setZero_def separate_def)

lemma Map_read_setZero_same: "Map_read y n (Map_setZero y n m) = replicate n 0"
proof -
  have "map (\<lambda>i. Map_setZero y n m (y + i)) [0..<n] = map (\<lambda>i. 0) [0..<n]"
    by (rule map_cong) (auto simp: Map_setZero_def)
  then show ?thesis by (simp add: Map_read_def map_replicate_const)
qed

lemma solve_output:
  assumes "separate x_in y_out (nat (m_n this))"
  shows "Map_read y_out (nat (m_n this)) (scalars (snd (solve nt this x_in y_out w))) =
     map (\<lambda>i. if i < length (fst (conjugate_gradient nt (matrix (m_cg this) w)
                   (Map_read x_in (nat (m_n this)) (scalars w)) (replicate (nat (m_n this)) 0)
                   (m_preconditioner (m_cg this)) (maxIterations (m_cg this) (matrix (m_cg this) w))
                   (m_tolerance (m_cg this))))
              then fst (conjugate_gradient nt (matrix (m_cg this) w)
                   (Map_read x_in (nat (m_n this)) (scalars w)) (replicate (nat (m_n this)) 0)
                   (m_preconditioner (m_cg this)) (maxIterations (m_cg this) (matrix (m_cg this) w))
                   (m_tolerance (m_cg this))) ! i
              else 0) [0..<nat (m_n this)]"
  by (simp add: solve_def ConjugateGradient_solve_into_def solve_with_guess_impl_def Let_def
      split_beta Map_read_assign_setZero Map_read_setZero_separate[OF assms] Map_read_setZero_same
      matrix_def)

lemma solve_keeps_setup:
  "mp_matrix (m_cg (fst (solve nt this x_in y_out w))) = mp_matrix (m_cg this)"
  "m_preconditioner (m_cg (fst (solve nt this x_in y_out w))) = m_preconditioner (m_cg this)"
  "m_maxIterations (m_cg (fst (solve nt this x_in y_out w))) = m_maxIterations (m_cg this)"
  "m_tolerance (m_cg (fst (solve nt this x_in y_out w))) = m_tolerance (m_cg this)"
  "m_isInitialized (m_cg (fst (solve nt this x_in y_out w)))"
  "m_n (fst (solve nt this x_in y_out w)) = m_n this"
  "m_mat (fst (solve nt this x_in y_out w)) = m_mat this"
  by (simp_all add: solve_def ConjugateGradient_solve_into_def solve_with_guess_impl_def Let_def
      split_beta)

lemma solve_keeps_world:
  "matrices (snd (solve nt this x_in y_out w)) = matrices w"
  "cg_computes (snd (solve nt this x_in y_out w)) = cg_computes w"
  by (simp_all add: solve_def ConjugateGradient_solve_into_def Let_def split_beta)

lemma Ready_solve:
  assumes "Ready this w"
  shows "Ready (fst (solve nt this x_in y_out w)) (snd (solve nt this x_in y_out w))"
  using assms by (simp add: Ready_def solve_keeps_setup solve_keeps_world)

lemma Ready_matrix: "Ready this w \<Longrightarrow> matrix (m_cg this) w = matrices w (m_mat this)"
  by (simp add: Ready_def matrix_def)

lemma Ready_maxIterations:
  "Ready this w \<Longrightarrow> maxIterations (m_cg this) (matrices w (m_mat this)) = 2 * m_n this"
  by (simp add: Ready_def maxIterations_def)

lemma Ready_iterate_length:
  assumes "Ready this w"
  shows "length (fst (conjugate_gradient nt (matrices w (m_mat this))
                   (Map_read x_in (nat (m_n this)) m0) (Map_read y_out (nat (m_n this)) m0)
                   (m_preconditioner (m_cg this)) iters tol)) = nat (m_n this)"
proof (rule conjugate_gradient_length)
  show "length (m_preconditioner (m_cg this)) = nat (m_n this)"
    using assms Ready_dims(1)[OF assms] by (simp add: Ready_def DiagonalPreconditioner_compute_def)
  show "SparseMatrix_rows (matrices w (m_mat this)) = nat (m_n this)"
    using assms by (simp add: Ready_def)
qed (simp_all add: length_Map_read)

lemma Map_assign_frame: "\<not> (p \<le> a \<and> a < p + length xs) \<Longrightarrow> Map_assign p xs m a = m a"
  by (auto simp: Map_assign_def)

lemma Map_read_assign_same: "length xs = n \<Longrightarrow> Map_read p n (Map_assign p xs m) = xs"
  by (auto simp: Map_read_def Map_assign_def intro: nth_equalityI)

lemma solve_scalars:
  assumes "Ready this w"
  shows "scalars (snd (solve nt this x_in y_out w)) =
     Map_assign y_out
       (fst (conjugate_gradient nt (matrices w (m_mat this))
               (Map_read x_in (nat (m_n this)) (Map_setZero y_out (nat (m_n this)) (scalars w)))
               (Map_read y_out (nat (m_n this)) (Map_setZero y_out (nat (m_n this)) (scalars w)))
               (m_preconditioner (m_cg this)) (2 * m_n this) (m_tolerance (m_cg this))))
       (Map_setZero y_out (nat (m_n this)) (scalars w))"
  by (simp add: solve_def ConjugateGradient_solve_into_def solve_with_guess_impl_def Let_def
      split_beta Ready_matrix[OF assms] Ready_maxIterations[OF assms])

lemma solve_info:
  "m_info (m_cg (fst (solve nt this x_in y_out w))) = Some Success \<or>
   m_info (m_cg (fst (solve nt this x_in y_out w))) = Some NoConvergence"
  by (simp add: solve_def ConjugateGradient_solve_into_def solve_with_guess_impl_def Let_def
      split_beta)


lemma Map_read_frame:
  assumes "\<forall>a. \<not> (y \<le> a \<and> a < y + n) \<longrightarrow> m' a = m a" and "separate x y n"
  shows "Map_read x n m' = Map_read x n m"
  unfolding Map_read_def
proof (rule map_cong)
  fix i assume "i \<in> set [0..<n]"
  then have "\<not> (y \<le> x + i \<and> x + i < y + n)" using assms(2) by (auto simp: separate_def)
  then show "m' (x + i) = m (x + i)" using assms(1) by blast
qed simp

lemma mat_prod_frame:
  assumes "Ready this w" "compressed (matrices w (m_mat this))" "separate x_in y_out (nat (m_n this))"
  shows "\<forall>a. \<not> (y_out \<le> a \<and> a < y_out + nat (m_n this)) \<longrightarrow>
             scalars (mat_prod Uplo this x_in y_out w) a = scalars w a"
  unfolding mat_prod_def
  by (simp add: selfadjoint_evalTo_eq[OF assms(2) Ready_dims(1)[OF assms(1), symmetric]
        Ready_dims(2)[OF assms(1), symmetric] assms(3)])

lemma solve_frame:
  assumes "Ready this w"
  shows "\<forall>a. \<not> (y_out \<le> a \<and> a < y_out + nat (m_n this)) \<longrightarrow>
             scalars (snd (solve nt this x_in y_out w)) a = scalars w a"
  unfolding solve_scalars[OF assms]
  by (auto simp: Map_assign_def Map_setZero_def Ready_iterate_length[OF assms])

lemma mat_prod_keeps_world:
  "matrices (mat_prod Uplo this x_in y_out w) = matrices w"
  "cg_computes (mat_prod Uplo this x_in y_out w) = cg_computes w"
  by (simp_all add: mat_prod_def)

lemma invoke_keeps_matrices:
  "invoke nt Uplo c (this, w) = Inr (v, this', w') \<Longrightarrow> matrices w' = matrices w"
proof (cases c)
  case (Solve x_in y_out)
  assume "invoke nt Uplo c (this, w) = Inr (v, this', w')"
  then have "w' = snd (solve nt this x_in y_out w)" by (simp add: invoke_def Solve)
  then show ?thesis by (simp add: solve_keeps_world)
qed (auto simp: invoke_def mat_prod_keeps_world)

lemma run_keeps_matrices: "matrices (snd (run nt Uplo cs (this, w))) = matrices w"
proof (induction cs arbitrary: this w)
  case Nil
  show ?case by simp
next
  case (Cons c cs)
  obtain v this' w' where i: "invoke nt Uplo c (this, w) = Inr (v, this', w')"
    using invoke_returns by blast
  show ?case using Cons.IH[of this' w'] invoke_keeps_matrices[OF i] by (simp add: i)
qed

lemma mirrored_cong:
  assumes "\<forall>r c. in_triangle Mode r c \<longrightarrow> coeff B' r c = coeff B r c"
  shows "mirrored Mode B' r c = mirrored Mode B r c"
proof (cases "in_triangle Mode r c")
  case True
  then show ?thesis using assms by (simp add: mirrored_def)
next
  case False
  then have "in_triangle Mode c r" by (cases Mode) (auto simp: in_triangle_def)
  then show ?thesis using assms False by (simp add: mirrored_def)
qed


section \<open>Concrete runs\<close>

text \<open>
  The matrix \<open>[[4, 1], [1, 3]]\<close> of the spec's scenario, column major, once with its lower,
  once with its upper triangle and once with both stored; the identity; a matrix with
  no entry; a 3 by 4 matrix; and the empty square matrix of dimension \<open>2\<^sup>3\<^sup>1\<close>.
  \<^verbatim>\<open>Scalar\<close> is \<open>real\<close> with the tolerance and the smallest positive value of \<^verbatim>\<open>float\<close>.
\<close>

definition B_lower :: "real SparseMatrix" where
  "B_lower = \<lparr> IsRowMajor = False, m_innerSize = 2, m_vectors = [[(0, 4), (1, 1)], [(1, 3)]] \<rparr>"

definition B_upper :: "real SparseMatrix" where
  "B_upper = \<lparr> IsRowMajor = False, m_innerSize = 2, m_vectors = [[(0, 4)], [(0, 1), (1, 3)]] \<rparr>"

definition B_full :: "real SparseMatrix" where
  "B_full = \<lparr> IsRowMajor = False, m_innerSize = 2, m_vectors = [[(0, 4), (1, 1)], [(0, 1), (1, 3)]] \<rparr>"

definition B_identity :: "real SparseMatrix" where
  "B_identity = \<lparr> IsRowMajor = False, m_innerSize = 2, m_vectors = [[(0, 1)], [(1, 1)]] \<rparr>"

definition B_zero :: "real SparseMatrix" where
  "B_zero = \<lparr> IsRowMajor = False, m_innerSize = 1, m_vectors = [[]] \<rparr>"

definition B_3x4 :: "real SparseMatrix" where
  "B_3x4 = \<lparr> IsRowMajor = False, m_innerSize = 3, m_vectors = [[], [], [], []] \<rparr>"


definition float_traits :: "real NumTraits" where
  "float_traits = \<lparr> epsilon = 1 / 2 ^ 23, min_positive = 1 / 2 ^ 126, sqrt_of = sqrt \<rparr>"

text \<open>
  A world with the matrix \<open>B\<close> (at every reference) and the vector \<open>x\<close> from address 0
  on, zero elsewhere; and the object the constructor builds over \<open>B\<close>.
\<close>

definition world0 :: "real SparseMatrix \<Rightarrow> real list \<Rightarrow> real world" where
  "world0 B x = \<lparr> matrices = (\<lambda>_. B), scalars = Map_assign 0 x (\<lambda>_. 0), cg_computes = 0 \<rparr>"

definition built :: "real SparseMatrix \<Rightarrow> real SparseRegularInverse" where
  "built B = \<lparr> m_n = int_of_Index (int (SparseMatrix_rows B)), m_mat = 0,
      m_cg = fst (ConjugateGradient_compute (ConjugateGradient_init float_traits) 0 (world0 B [])) \<rparr>"

lemmas eval_defs = built_def world0_def B_lower_def B_upper_def B_full_def B_identity_def B_zero_def B_3x4_def
  float_traits_def SparseRegularInverse_new_def solve_def mat_prod_def
  ConjugateGradient_solve_into_def solve_with_guess_impl_def conjugate_gradient_def
  cg_loop.simps ConjugateGradient_compute_def ConjugateGradient_init_def matrix_def maxIterations_def
  DiagonalPreconditioner_compute_def DiagonalPreconditioner_solve_def invdiag_at_def
  selfadjoint_times_def selfadjoint_evalTo_def sparse_selfadjoint_time_dense_product_def
  ProcessFirstHalf_def process_outer_def add_diagonal_def Map_read_def Map_assign_def Map_setZero_def
  SparseMatrix_rows_def SparseMatrix_cols_def outerSize_def dot_def squaredNorm_def vec_add_def
  vec_sub_def vec_scale_def rows_def cols_def Let_def upt_rec Ready_def compressed_def inner_ok_def
  separate_def dense_product_def mirrored_def in_triangle_def coeff_def vec_coeff_def
  lessThan_nat_numeral lessThan_Suc invoke_def int_of_Index_def

lemma built_is_constructed:
  "SparseMatrix_rows B = SparseMatrix_cols B \<Longrightarrow>
   fst (SparseRegularInverse_new float_traits 0 (world0 B x)) = Inr (built B)"
  by (simp add: SparseRegularInverse_new_def built_def world0_def ConjugateGradient_compute_def
      Let_def)

section \<open>The claims\<close>

text \<open>
  C1. For a compressed square matrix and an input vector of its dimension \<open>n\<close> in a
  buffer that does not overlap the output buffer, \<open>mat_prod\<close> leaves in the output
  buffer exactly the dense product \<open>B \<cdot> x\<close>, where \<open>B\<close> is the full symmetric matrix
  obtained by mirroring the triangle \<open>Uplo\<close> of the stored matrix across the diagonal.
  Whatever is stored in the other triangle is ignored, and positive definiteness is
  not needed.
\<close>

theorem mat_prod_is_dense_product:
  fixes this :: "'a::linordered_field SparseRegularInverse"
  assumes "Ready this w" and "compressed (matrices w (m_mat this))"
    and "separate x_in y_out (nat (m_n this))"
  shows "Map_read y_out (nat (m_n this)) (scalars (mat_prod Uplo this x_in y_out w)) =
         map (dense_product (mirrored Uplo (matrices w (m_mat this))) (nat (m_n this))
                (\<lambda>k. scalars w (x_in + k)))
             [0..<nat (m_n this)]"
  unfolding mat_prod_def
  by (simp add: selfadjoint_evalTo_eq[OF assms(2) Ready_dims(1)[OF assms(1), symmetric]
        Ready_dims(2)[OF assms(1), symmetric] assms(3)] Map_read_dense)

text \<open>
  The spec's scenario: the lower triangle of \<open>[[4, 1], [1, 3]]\<close> stored, \<open>x = [1, 0]\<close> at
  address 0, the output at address 2.
\<close>

theorem mat_prod_is_dense_product_witness:
  "fst (SparseRegularInverse_new float_traits 0 (world0 B_lower [1, 0])) = Inr (built B_lower) \<and>
   Ready (built B_lower) (world0 B_lower [1, 0]) \<and> compressed B_lower \<and> separate 0 2 2 \<and>
   Map_read 2 2 (scalars (mat_prod Lower (built B_lower) 0 2 (world0 B_lower [1, 0]))) = [4, 1]"
proof -
  have r: "Ready (built B_lower) (world0 B_lower [1, 0])" by (simp add: eval_defs)
  have c: "compressed (matrices (world0 B_lower [1, 0]) (m_mat (built B_lower)))"
    by (simp add: eval_defs)
  have s: "separate 0 2 (nat (m_n (built B_lower)))" by (simp add: eval_defs)
  have n: "nat (m_n (built B_lower)) = 2" by (simp add: eval_defs)
  have b: "fst (SparseRegularInverse_new float_traits 0 (world0 B_lower [1, 0])) = Inr (built B_lower)"
    by (rule built_is_constructed) (simp add: eval_defs)
  have "Map_read 2 2 (scalars (mat_prod Lower (built B_lower) 0 2 (world0 B_lower [1, 0]))) = [4, 1]"
    using mat_prod_is_dense_product[OF r c s, of Lower] unfolding n
    by (simp add: eval_defs)
  then show ?thesis using r c s b by (simp add: eval_defs)
qed

text \<open>
  C3. The constructor throws \<^verbatim>\<open>std::invalid_argument\<close> (the spec's InvalidDimension) if
  and only if the matrix is not square, and it yields an object if and only if the matrix
  is square, so a failed construction leaves no object; no call of \<open>rows\<close>, \<open>cols\<close>,
  \<open>solve\<close> or \<open>mat_prod\<close> throws.
\<close>

theorem construction_error:
  "(fst (SparseRegularInverse_new nt mat w)
      = Inl (invalid_argument ''SparseRegularInverse: matrix must be square''))
     = (SparseMatrix_rows (matrices w mat) \<noteq> SparseMatrix_cols (matrices w mat)) \<and>
   (\<exists>this. fst (SparseRegularInverse_new nt mat w) = Inr this)
     = (SparseMatrix_rows (matrices w mat) = SparseMatrix_cols (matrices w mat)) \<and>
   (\<forall>c this w. \<exists>r. invoke nt Uplo c (this, w) = Inr r)"
proof -
  have "\<forall>c this w. \<exists>r. invoke nt Uplo c (this, w) = Inr r"
    using invoke_returns by blast
  then show ?thesis
    by (simp add: SparseRegularInverse_new_def Let_def split_beta)
qed

text \<open>The spec's 3 by 4 matrix is rejected, the identity is accepted.\<close>

theorem construction_error_witness:
  "SparseMatrix_rows B_3x4 = 3 \<and> SparseMatrix_cols B_3x4 = 4 \<and>
   fst (SparseRegularInverse_new float_traits 0 (world0 B_3x4 []))
     = Inl (invalid_argument ''SparseRegularInverse: matrix must be square'') \<and>
   fst (SparseRegularInverse_new float_traits 0 (world0 B_identity [])) = Inr (built B_identity) \<and>
   invoke float_traits Lower Rows (built B_identity, world0 B_identity [])
     = Inr (IntVal 2, built B_identity, world0 B_identity [])"
proof -
  have ne: "SparseMatrix_rows (matrices (world0 B_3x4 []) 0) \<noteq> SparseMatrix_cols (matrices (world0 B_3x4 []) 0)"
    by (simp add: eval_defs)
  have "fst (SparseRegularInverse_new float_traits 0 (world0 B_3x4 []))
     = Inl (invalid_argument ''SparseRegularInverse: matrix must be square'')"
    using construction_error[of float_traits 0 "world0 B_3x4 []" Lower] ne by simp
  moreover have "fst (SparseRegularInverse_new float_traits 0 (world0 B_identity [])) = Inr (built B_identity)"
    by (rule built_is_constructed) (simp add: eval_defs)
  ultimately show ?thesis by (simp add: eval_defs)
qed




text \<open>
  C9. The constructor runs \<^verbatim>\<open>m_cg.compute\<close> exactly once for a square matrix and not at
  all for a matrix that is not square: then it throws before the solver is set up, with
  the world exactly as it was and no object.
\<close>

theorem rejected_before_compute:
  "cg_computes (snd (SparseRegularInverse_new nt mat w))
     = (if SparseMatrix_rows (matrices w mat) = SparseMatrix_cols (matrices w mat)
        then Suc (cg_computes w) else cg_computes w) \<and>
   (SparseMatrix_rows (matrices w mat) \<noteq> SparseMatrix_cols (matrices w mat) \<longrightarrow>
    SparseRegularInverse_new nt mat w
      = (Inl (invalid_argument ''SparseRegularInverse: matrix must be square''), w))"
  by (simp add: SparseRegularInverse_new_def ConjugateGradient_compute_def Let_def)

text \<open>No solver set-up for the 3 by 4 matrix, one for the identity.\<close>

theorem rejected_before_compute_witness:
  "SparseMatrix_rows B_3x4 \<noteq> SparseMatrix_cols B_3x4 \<and>
   SparseRegularInverse_new float_traits 0 (world0 B_3x4 [])
      = (Inl (invalid_argument ''SparseRegularInverse: matrix must be square''), world0 B_3x4 []) \<and>
   cg_computes (snd (SparseRegularInverse_new float_traits 0 (world0 B_3x4 []))) = 0 \<and>
   cg_computes (snd (SparseRegularInverse_new float_traits 0 (world0 B_identity []))) = 1"
proof -
  have ne: "SparseMatrix_rows (matrices (world0 B_3x4 []) 0) \<noteq> SparseMatrix_cols (matrices (world0 B_3x4 []) 0)"
    by (simp add: eval_defs)
  have eq: "SparseMatrix_rows (matrices (world0 B_identity []) 0) = SparseMatrix_cols (matrices (world0 B_identity []) 0)"
    by (simp add: eval_defs)
  show ?thesis
    using rejected_before_compute[of float_traits 0 "world0 B_3x4 []"]
      rejected_before_compute[of float_traits 0 "world0 B_identity []"] ne eq
    by (simp add: world0_def)
qed

text \<open>
  C4. For an object in the state Ready and any two buffer addresses, a call of \<open>solve\<close>
  returns: it does not throw, its return value is void, and the object stays Ready. The
  solver records whether the iteration converged in its private member \<open>m_info\<close> and
  nowhere else; in both cases the output buffer holds the iterate at which
  \<open>conjugate_gradient\<close> stopped.
\<close>

theorem solve_never_signals:
  assumes "Ready this w"
  shows "\<exists>this' w'. invoke nt Uplo (Solve x_in y_out) (this, w) = Inr (VoidVal, this', w') \<and>
     Ready this' w' \<and>
     (m_info (m_cg this') = Some Success \<or> m_info (m_cg this') = Some NoConvergence) \<and>
     Map_read y_out (nat (m_n this)) (scalars w') =
       fst (conjugate_gradient nt (matrices w (m_mat this))
              (Map_read x_in (nat (m_n this)) (Map_setZero y_out (nat (m_n this)) (scalars w)))
              (Map_read y_out (nat (m_n this)) (Map_setZero y_out (nat (m_n this)) (scalars w)))
              (m_preconditioner (m_cg this)) (2 * m_n this) (m_tolerance (m_cg this)))"
proof (intro exI conjI)
  show "invoke nt Uplo (Solve x_in y_out) (this, w)
      = Inr (VoidVal, fst (solve nt this x_in y_out w), snd (solve nt this x_in y_out w))"
    by (simp add: invoke_def)
  show "Ready (fst (solve nt this x_in y_out w)) (snd (solve nt this x_in y_out w))"
    by (rule Ready_solve[OF assms])
  show "m_info (m_cg (fst (solve nt this x_in y_out w))) = Some Success \<or>
        m_info (m_cg (fst (solve nt this x_in y_out w))) = Some NoConvergence"
    by (rule solve_info)
  show "Map_read y_out (nat (m_n this)) (scalars (snd (solve nt this x_in y_out w))) =
       fst (conjugate_gradient nt (matrices w (m_mat this))
              (Map_read x_in (nat (m_n this)) (Map_setZero y_out (nat (m_n this)) (scalars w)))
              (Map_read y_out (nat (m_n this)) (Map_setZero y_out (nat (m_n this)) (scalars w)))
              (m_preconditioner (m_cg this)) (2 * m_n this) (m_tolerance (m_cg this)))"
    unfolding solve_scalars[OF assms]
    by (rule Map_read_assign_same) (rule Ready_iterate_length[OF assms])
qed



text \<open>
  A run that does not converge: the identity and the right-hand side \<open>[2\<^sup>-\<^sup>7\<^sup>0, 0]\<close>. The
  squared norm of the residual is below the solver's "consider as zero" threshold at
  once, so the solver stops at its initial guess, zero, with the relative error 1.
\<close>

theorem solve_never_signals_witness:
  "fst (SparseRegularInverse_new float_traits 0 (world0 B_identity [1 / 2 ^ 70, 0]))
     = Inr (built B_identity) \<and>
   Ready (built B_identity) (world0 B_identity [1 / 2 ^ 70, 0]) \<and>
   (\<exists>this' w'. invoke float_traits Lower (Solve 0 2) (built B_identity, world0 B_identity [1 / 2 ^ 70, 0])
        = Inr (VoidVal, this', w')) \<and>
   m_info (m_cg (fst (solve float_traits (built B_identity) 0 2 (world0 B_identity [1 / 2 ^ 70, 0]))))
     = Some NoConvergence \<and>
   Map_read 2 2 (scalars (snd (solve float_traits (built B_identity) 0 2
                                 (world0 B_identity [1 / 2 ^ 70, 0])))) = [0, 0]"
proof -
  have b: "fst (SparseRegularInverse_new float_traits 0 (world0 B_identity [1 / 2 ^ 70, 0]))
     = Inr (built B_identity)"
    by (rule built_is_constructed) (simp add: eval_defs)
  have r: "Ready (built B_identity) (world0 B_identity [1 / 2 ^ 70, 0])" by (simp add: eval_defs)
  have i: "m_info (m_cg (fst (solve float_traits (built B_identity) 0 2 (world0 B_identity [1 / 2 ^ 70, 0]))))
     = Some NoConvergence"
    by (simp add: eval_defs)
  have o: "Map_read 2 2 (scalars (snd (solve float_traits (built B_identity) 0 2
                                 (world0 B_identity [1 / 2 ^ 70, 0])))) = [0, 0]"
    by (simp add: eval_defs)
  have "\<exists>this' w'. invoke float_traits Lower (Solve 0 2) (built B_identity, world0 B_identity [1 / 2 ^ 70, 0])
        = Inr (VoidVal, this', w')"
    using solve_never_signals[OF r, of float_traits Lower 0 2] by blast
  then show ?thesis using b r i o by blast
qed


text \<open>
  C7. Two calls of \<open>solve\<close> on the same object, over the same matrix, with input vectors
  of identical contents, leave identical output vectors, whatever the first call has
  written into the solver's mutable members. The input and the output buffer of each
  call do not overlap.
\<close>

theorem solve_deterministic:
  assumes "separate x_in y_out (nat (m_n this))" and "separate x_in' y_out' (nat (m_n this))"
    and "matrices w' = matrices w"
    and "Map_read x_in' (nat (m_n this)) (scalars w') = Map_read x_in (nat (m_n this)) (scalars w)"
  shows "Map_read y_out' (nat (m_n this))
           (scalars (snd (solve nt (fst (solve nt this x_in y_out w)) x_in' y_out' w')))
       = Map_read y_out (nat (m_n this)) (scalars (snd (solve nt this x_in y_out w)))"
proof -
  let ?this1 = "fst (solve nt this x_in y_out w)"
  have n: "m_n ?this1 = m_n this" by (rule solve_keeps_setup)
  have sep': "separate x_in' y_out' (nat (m_n ?this1))" using assms(2) by (simp add: n)
  have mat: "matrix (m_cg ?this1) w' = matrix (m_cg this) w"
    unfolding matrix_def solve_keeps_setup assms(3) ..
  have "Map_read y_out' (nat (m_n this)) (scalars (snd (solve nt ?this1 x_in' y_out' w')))
      = Map_read y_out' (nat (m_n ?this1)) (scalars (snd (solve nt ?this1 x_in' y_out' w')))"
    by (simp only: n)
  also have "\<dots> = Map_read y_out (nat (m_n this)) (scalars (snd (solve nt this x_in y_out w)))"
    unfolding solve_output[OF assms(1)] solve_output[OF sep']
    unfolding n mat assms(4) solve_keeps_setup maxIterations_def
    ..
  finally show ?thesis .
qed



text \<open>Solving \<open>[[4, 1], [1, 3]] y = [4, 1]\<close> twice.\<close>

theorem solve_deterministic_witness:
  "separate 0 2 2 \<and> separate 0 4 2 \<and>
   Map_read 2 2 (scalars (snd (solve float_traits (built B_lower) 0 2 (world0 B_lower [4, 1])))) = [1, 0] \<and>
   Map_read 4 2 (scalars (snd (solve float_traits
        (fst (solve float_traits (built B_lower) 0 2 (world0 B_lower [4, 1]))) 0 4
        (world0 B_lower [4, 1])))) = [1, 0]"
proof -
  have n: "nat (m_n (built B_lower)) = 2" by (simp add: eval_defs)
  have s1: "separate 0 2 (nat (m_n (built B_lower)))" and s2: "separate 0 4 (nat (m_n (built B_lower)))"
    by (simp_all add: eval_defs)
  have o: "Map_read 2 2 (scalars (snd (solve float_traits (built B_lower) 0 2 (world0 B_lower [4, 1])))) = [1, 0]"
    by (simp add: eval_defs)
  show ?thesis
    using solve_deterministic[OF s1 s2 refl refl, of float_traits "world0 B_lower [4, 1]"] o s1 s2
    unfolding n by simp
qed

text \<open>
  C8. The claim is that no operation changes the matrix and that every operation reads
  the selected triangle only. \<open>solve\<close> does not: the matrix with both triangles of
  \<open>[[4, 1], [1, 3]]\<close> stored and the one with only the upper triangle stored agree on the
  triangle \<open>Upper\<close>, yet \<open>solve\<close> on an object for the flag \<open>Upper\<close> answers \<open>[1, 0]\<close> over
  the first and \<open>[1, 1/3]\<close> over the second: it reads the lower triangle as it is stored,
  since the flag is no argument of \<open>solve\<close>. This is the defect of C2.
\<close>

theorem solve_reads_other_triangle:
  "fst (SparseRegularInverse_new float_traits 0 (world0 B_upper [4, 1])) = Inr (built B_upper) \<and>
   fst (SparseRegularInverse_new float_traits 0 (world0 B_full [4, 1])) = Inr (built B_full) \<and>
   mirrored Upper B_full = mirrored Upper B_upper \<and>
   Map_read 2 2 (scalars (snd (solve float_traits (built B_upper) 0 2 (world0 B_upper [4, 1]))))
     = [1, 1 / 3] \<and>
   Map_read 2 2 (scalars (snd (solve float_traits (built B_full) 0 2 (world0 B_full [4, 1]))))
     = [1, 0]"
proof -
  have t: "\<forall>r c. in_triangle Upper r c \<longrightarrow> coeff B_full r c = coeff B_upper r c"
    by (auto simp: in_triangle_def coeff_def vec_coeff_def B_full_def B_upper_def
        outerSize_def nth_Cons' less_2_cases_iff)
  have "mirrored Upper B_full = mirrored Upper B_upper"
    by (intro ext) (rule mirrored_cong[OF t])
  moreover have "fst (SparseRegularInverse_new float_traits 0 (world0 B_upper [4, 1])) = Inr (built B_upper)"
    by (rule built_is_constructed) (simp add: eval_defs)
  moreover have "fst (SparseRegularInverse_new float_traits 0 (world0 B_full [4, 1])) = Inr (built B_full)"
    by (rule built_is_constructed) (simp add: eval_defs)
  moreover have "Map_read 2 2 (scalars (snd (solve float_traits (built B_upper) 0 2 (world0 B_upper [4, 1]))))
     = [1, 1 / 3]"
    by (simp add: eval_defs)
  moreover have "Map_read 2 2 (scalars (snd (solve float_traits (built B_full) 0 2 (world0 B_full [4, 1]))))
     = [1, 0]"
    by (simp add: eval_defs)
  ultimately show ?thesis by blast
qed

text \<open>
  What does hold of it: no operation changes a matrix, for the constructor and every
  sequence of calls of \<open>rows\<close>, \<open>cols\<close>, \<open>mat_prod\<close> and \<open>solve\<close> leave all matrices of the
  world as they were; and \<open>mat_prod\<close> reads the triangle \<open>Uplo\<close> only: replacing the
  borrowed matrix by one of the same dimension that has the same coefficients in that
  triangle, and anything in the other one, does not change what it writes.
\<close>

theorem matrix_read_only:
  fixes this :: "'a::linordered_field SparseRegularInverse"
  shows "matrices (snd (SparseRegularInverse_new nt mat w)) = matrices w \<and>
   matrices (snd (run nt Uplo cs (this, w))) = matrices w \<and>
   (Ready this w \<and> compressed (matrices w (m_mat this)) \<and> compressed B' \<and>
    outerSize B' = nat (m_n this) \<and> m_innerSize B' = nat (m_n this) \<and>
    separate x_in y_out (nat (m_n this)) \<and>
    (\<forall>r c. in_triangle Uplo r c \<longrightarrow> coeff B' r c = coeff (matrices w (m_mat this)) r c)
    \<longrightarrow> scalars (mat_prod Uplo this x_in y_out (w \<lparr> matrices := (matrices w) (m_mat this := B') \<rparr>))
        = scalars (mat_prod Uplo this x_in y_out w))"
proof (intro conjI impI)
  show "matrices (snd (SparseRegularInverse_new nt mat w)) = matrices w"
    by (simp add: SparseRegularInverse_new_def ConjugateGradient_compute_def Let_def)
  show "matrices (snd (run nt Uplo cs (this, w))) = matrices w"
    by (rule run_keeps_matrices)
next
  assume a: "Ready this w \<and> compressed (matrices w (m_mat this)) \<and> compressed B' \<and>
    outerSize B' = nat (m_n this) \<and> m_innerSize B' = nat (m_n this) \<and>
    separate x_in y_out (nat (m_n this)) \<and>
    (\<forall>r c. in_triangle Uplo r c \<longrightarrow> coeff B' r c = coeff (matrices w (m_mat this)) r c)"
  then have r: "Ready this w" and c: "compressed (matrices w (m_mat this))" and c': "compressed B'"
    and o: "outerSize B' = nat (m_n this)" and i: "m_innerSize B' = nat (m_n this)"
    and s: "separate x_in y_out (nat (m_n this))"
    and t: "\<forall>r c. in_triangle Uplo r c \<longrightarrow> coeff B' r c = coeff (matrices w (m_mat this)) r c"
    by blast+
  have m: "mirrored Uplo B' = mirrored Uplo (matrices w (m_mat this))"
    by (intro ext) (rule mirrored_cong[OF t])
  show "scalars (mat_prod Uplo this x_in y_out (w \<lparr> matrices := (matrices w) (m_mat this := B') \<rparr>))
        = scalars (mat_prod Uplo this x_in y_out w)"
    unfolding mat_prod_def
    by (simp add: selfadjoint_evalTo_eq[OF c Ready_dims(1)[OF r, symmetric]
          Ready_dims(2)[OF r, symmetric] s] selfadjoint_evalTo_eq[OF c' o i s, where Mode = Uplo, unfolded m])
qed



text \<open>
  Construction and two calls over the lower triangle of \<open>[[4, 1], [1, 3]]\<close>; the product
  is the same when the upper triangle is stored as well.
\<close>

theorem matrix_read_only_witness:
  "matrices (snd (SparseRegularInverse_new float_traits 0 (world0 B_lower [1, 0]))) 0 = B_lower \<and>
   matrices (snd (run float_traits Lower [MatProd 0 2, Solve 2 4]
                    (built B_lower, world0 B_lower [1, 0]))) 0 = B_lower \<and>
   Ready (built B_lower) (world0 B_lower [1, 0]) \<and> compressed B_lower \<and> compressed B_full \<and>
   B_full \<noteq> B_lower \<and>
   Map_read 2 2 (scalars (mat_prod Lower (built B_lower) 0 2
        ((world0 B_lower [1, 0]) \<lparr> matrices := (matrices (world0 B_lower [1, 0])) (0 := B_full) \<rparr>)))
     = [4, 1] \<and>
   Map_read 2 2 (scalars (mat_prod Lower (built B_lower) 0 2 (world0 B_lower [1, 0]))) = [4, 1]"
proof -
  let ?w = "world0 B_lower [1, 0]"
  have r: "Ready (built B_lower) ?w" by (simp add: eval_defs)
  have c: "compressed (matrices ?w (m_mat (built B_lower)))" by (simp add: eval_defs)
  have c': "compressed B_full" by (simp add: B_full_def compressed_def inner_ok_def)
  have d: "outerSize B_full = nat (m_n (built B_lower))" "m_innerSize B_full = nat (m_n (built B_lower))"
    by (simp_all add: B_full_def eval_defs)
  have s: "separate 0 2 (nat (m_n (built B_lower)))" by (simp add: eval_defs)
  have t: "\<forall>r c. in_triangle Lower r c \<longrightarrow> coeff B_full r c = coeff (matrices ?w (m_mat (built B_lower))) r c"
    by (auto simp: in_triangle_def coeff_def vec_coeff_def B_full_def B_lower_def world0_def
        built_def outerSize_def nth_Cons' less_2_cases_iff)
  have m0: "m_mat (built B_lower) = 0" by (simp add: built_def)
  have o: "Map_read 2 2 (scalars (mat_prod Lower (built B_lower) 0 2 ?w)) = [4, 1]"
    by (simp add: eval_defs)
  have ne: "B_full \<noteq> B_lower" by (simp add: B_full_def B_lower_def)
  have mw: "matrices ?w 0 = B_lower" by (simp add: world0_def)
  show ?thesis
    using matrix_read_only[of float_traits 0 ?w Lower "[MatProd 0 2, Solve 2 4]" "built B_lower"
        B_full 0 2] r c c' d s t o ne mw
    unfolding m0
    by simp
qed

lemma dense_product_cong:
  "(\<And>k. k < n \<Longrightarrow> x k = y k) \<Longrightarrow> dense_product B n x r = dense_product B n y r"
  by (simp add: dense_product_def)

lemma Ready_scalars: "Ready this (w \<lparr> scalars := m \<rparr>) = Ready this w"
  by (simp add: Ready_def)

lemma mat_prod_scalars:
  assumes "Ready this w" "compressed (matrices w (m_mat this))" "separate x_in y_out (nat (m_n this))"
  shows "scalars (mat_prod Uplo this x_in y_out w) =
     (\<lambda>a. if y_out \<le> a \<and> a < y_out + nat (m_n this)
          then dense_product (mirrored Uplo (matrices w (m_mat this))) (nat (m_n this))
                 (\<lambda>k. scalars w (x_in + k)) (a - y_out)
          else scalars w a)"
  unfolding mat_prod_def
  by (simp add: selfadjoint_evalTo_eq[OF assms(2) Ready_dims(1)[OF assms(1), symmetric]
        Ready_dims(2)[OF assms(1), symmetric] assms(3)])

lemma mat_prod_overwrites:
  assumes "Ready this w" "compressed (matrices w (m_mat this))" "separate x_in y_out (nat (m_n this))"
    and "\<forall>a. \<not> (y_out \<le> a \<and> a < y_out + nat (m_n this)) \<longrightarrow> m2 a = scalars w a"
  shows "Map_read y_out (nat (m_n this)) (scalars (mat_prod Uplo this x_in y_out (w \<lparr> scalars := m2 \<rparr>)))
       = Map_read y_out (nat (m_n this)) (scalars (mat_prod Uplo this x_in y_out w))"
proof -
  have r2: "Ready this (w \<lparr> scalars := m2 \<rparr>)" using assms(1) by (simp add: Ready_scalars)
  have c2: "compressed (matrices (w \<lparr> scalars := m2 \<rparr>) (m_mat this))" using assms(2) by simp
  have x: "\<And>k. k < nat (m_n this) \<Longrightarrow> m2 (x_in + k) = scalars w (x_in + k)"
    using assms(3,4) by (auto simp: separate_def)
  have d: "\<And>r. dense_product (mirrored Uplo (matrices w (m_mat this))) (nat (m_n this))
                 (\<lambda>k. m2 (x_in + k)) r
              = dense_product (mirrored Uplo (matrices w (m_mat this))) (nat (m_n this))
                 (\<lambda>k. scalars w (x_in + k)) r"
    by (rule dense_product_cong) (rule x)
  show ?thesis
    unfolding mat_prod_scalars[OF r2 c2 assms(3)] mat_prod_scalars[OF assms(1-3)]
    by (simp add: Map_read_dense d)
qed

lemma solve_overwrites:
  assumes "Ready this w" "separate x_in y_out (nat (m_n this))"
    and "\<forall>a. \<not> (y_out \<le> a \<and> a < y_out + nat (m_n this)) \<longrightarrow> m2 a = scalars w a"
  shows "Map_read y_out (nat (m_n this))
           (scalars (snd (solve nt this x_in y_out (w \<lparr> scalars := m2 \<rparr>))))
       = Map_read y_out (nat (m_n this)) (scalars (snd (solve nt this x_in y_out w)))"
proof -
  have i: "Map_read x_in (nat (m_n this)) m2 = Map_read x_in (nat (m_n this)) (scalars w)"
    by (rule Map_read_frame[OF assms(3) assms(2)])
  have m: "matrix (m_cg this) (w \<lparr> scalars := m2 \<rparr>) = matrix (m_cg this) w"
    by (cases "mp_matrix (m_cg this)") (simp_all add: matrix_def)
  have e: "Map_read x_in (nat (m_n this)) (scalars (w \<lparr> scalars := m2 \<rparr>))
         = Map_read x_in (nat (m_n this)) (scalars w)"
    by (simp add: i)
  show ?thesis
    unfolding solve_output[OF assms(2)] m e ..
qed

text \<open>
  C10. A call of \<open>solve\<close> or \<open>mat_prod\<close> on an object in the state Ready, with an input
  and an output buffer of \<open>n\<close> cells that do not overlap, changes no scalar outside the
  \<open>n\<close> cells of the output buffer, so the input buffer is as it was; it writes every one
  of those \<open>n\<close> cells, for what they hold after the call does not depend on what they
  held before; \<open>rows\<close>, \<open>cols\<close> and the reference to the matrix are unchanged, and so are
  the matrices.
\<close>

theorem call_frame:
  assumes "Ready this w" and "compressed (matrices w (m_mat this))"
    and "separate x_in y_out (nat (m_n this))"
    and "c = Solve x_in y_out \<or> c = MatProd x_in y_out"
    and "invoke nt Uplo c (this, w) = Inr (v, this', w')"
  shows "(\<forall>a. \<not> (y_out \<le> a \<and> a < y_out + nat (m_n this)) \<longrightarrow> scalars w' a = scalars w a) \<and>
         (\<forall>m2 v2 this2 w2.
            (\<forall>a. \<not> (y_out \<le> a \<and> a < y_out + nat (m_n this)) \<longrightarrow> m2 a = scalars w a) \<and>
            invoke nt Uplo c (this, w \<lparr> scalars := m2 \<rparr>) = Inr (v2, this2, w2) \<longrightarrow>
            Map_read y_out (nat (m_n this)) (scalars w2)
              = Map_read y_out (nat (m_n this)) (scalars w')) \<and>
         Map_read x_in (nat (m_n this)) (scalars w') = Map_read x_in (nat (m_n this)) (scalars w) \<and>
         rows this' = rows this \<and> cols this' = cols this \<and> m_mat this' = m_mat this \<and>
         matrices w' = matrices w"
proof -
  have frame: "\<forall>a. \<not> (y_out \<le> a \<and> a < y_out + nat (m_n this)) \<longrightarrow> scalars w' a = scalars w a"
    and mats: "matrices w' = matrices w"
    and over: "\<forall>m2 v2 this2 w2.
            (\<forall>a. \<not> (y_out \<le> a \<and> a < y_out + nat (m_n this)) \<longrightarrow> m2 a = scalars w a) \<and>
            invoke nt Uplo c (this, w \<lparr> scalars := m2 \<rparr>) = Inr (v2, this2, w2) \<longrightarrow>
            Map_read y_out (nat (m_n this)) (scalars w2)
              = Map_read y_out (nat (m_n this)) (scalars w')"
  proof -
    from assms(4) show "\<forall>a. \<not> (y_out \<le> a \<and> a < y_out + nat (m_n this)) \<longrightarrow> scalars w' a = scalars w a"
    proof
      assume c: "c = Solve x_in y_out"
      then have "w' = snd (solve nt this x_in y_out w)" using assms(5) by (simp add: invoke_def)
      then show ?thesis using solve_frame[OF assms(1)] by simp
    next
      assume c: "c = MatProd x_in y_out"
      then have "w' = mat_prod Uplo this x_in y_out w" using assms(5) by (auto simp: invoke_def)
      then show ?thesis using mat_prod_frame[OF assms(1-3)] by simp
    qed
    from assms(4) show "matrices w' = matrices w"
    proof
      assume c: "c = Solve x_in y_out"
      then have "w' = snd (solve nt this x_in y_out w)" using assms(5) by (simp add: invoke_def)
      then show ?thesis by (simp add: solve_keeps_world)
    next
      assume c: "c = MatProd x_in y_out"
      then have "w' = mat_prod Uplo this x_in y_out w" using assms(5) by (auto simp: invoke_def)
      then show ?thesis by (simp add: mat_prod_keeps_world)
    qed
    from assms(4) show "\<forall>m2 v2 this2 w2.
            (\<forall>a. \<not> (y_out \<le> a \<and> a < y_out + nat (m_n this)) \<longrightarrow> m2 a = scalars w a) \<and>
            invoke nt Uplo c (this, w \<lparr> scalars := m2 \<rparr>) = Inr (v2, this2, w2) \<longrightarrow>
            Map_read y_out (nat (m_n this)) (scalars w2)
              = Map_read y_out (nat (m_n this)) (scalars w')"
    proof
      assume c: "c = Solve x_in y_out"
      then have w': "w' = snd (solve nt this x_in y_out w)" using assms(5) by (simp add: invoke_def)
      show ?thesis
      proof (intro allI impI)
        fix m2 v2 this2 w2
        assume a: "(\<forall>a. \<not> (y_out \<le> a \<and> a < y_out + nat (m_n this)) \<longrightarrow> m2 a = scalars w a) \<and>
            invoke nt Uplo c (this, w \<lparr> scalars := m2 \<rparr>) = Inr (v2, this2, w2)"
        then have "w2 = snd (solve nt this x_in y_out (w \<lparr> scalars := m2 \<rparr>))"
          by (simp add: invoke_def c)
        then show "Map_read y_out (nat (m_n this)) (scalars w2)
              = Map_read y_out (nat (m_n this)) (scalars w')"
          using solve_overwrites[OF assms(1) assms(3), of m2 nt] a by (simp add: w')
      qed
    next
      assume c: "c = MatProd x_in y_out"
      then have w': "w' = mat_prod Uplo this x_in y_out w" using assms(5) by (auto simp: invoke_def)
      show ?thesis
      proof (intro allI impI)
        fix m2 v2 this2 w2
        assume a: "(\<forall>a. \<not> (y_out \<le> a \<and> a < y_out + nat (m_n this)) \<longrightarrow> m2 a = scalars w a) \<and>
            invoke nt Uplo c (this, w \<lparr> scalars := m2 \<rparr>) = Inr (v2, this2, w2)"
        then have "w2 = mat_prod Uplo this x_in y_out (w \<lparr> scalars := m2 \<rparr>)"
          by (auto simp: invoke_def c)
        then show "Map_read y_out (nat (m_n this)) (scalars w2)
              = Map_read y_out (nat (m_n this)) (scalars w')"
          using mat_prod_overwrites[OF assms(1-3), of m2 Uplo] a by (simp add: w')
      qed
    qed
  qed
  have obj: "m_n this' = m_n this \<and> m_mat this' = m_mat this"
    by (rule invoke_keeps_m_n[OF assms(5)])
  have inp: "Map_read x_in (nat (m_n this)) (scalars w') = Map_read x_in (nat (m_n this)) (scalars w)"
    by (rule Map_read_frame[OF frame assms(3)])
  show ?thesis using frame mats over obj inp by (simp add: rows_def cols_def)
qed

text \<open>
  A call of \<open>solve\<close> and a call of \<open>mat_prod\<close> with the input \<open>[4, 1]\<close> at address 0 and
  the output at address 2, where \<open>[9, 9]\<close> stands before the call; the same calls with
  \<open>[0, 0]\<close> there write the same.
\<close>

theorem call_frame_witness:
  "Ready (built B_lower) (world0 B_lower [4, 1, 9, 9]) \<and> compressed B_lower \<and> separate 0 2 2 \<and>
   Map_read 2 2 (scalars (world0 B_lower [4, 1, 9, 9])) = [9, 9] \<and>
   invoke float_traits Lower (Solve 0 2) (built B_lower, world0 B_lower [4, 1, 9, 9])
     = Inr (VoidVal, solve float_traits (built B_lower) 0 2 (world0 B_lower [4, 1, 9, 9])) \<and>
   invoke float_traits Lower (MatProd 0 2) (built B_lower, world0 B_lower [4, 1, 9, 9])
     = Inr (VoidVal, built B_lower, mat_prod Lower (built B_lower) 0 2 (world0 B_lower [4, 1, 9, 9])) \<and>
   Map_read 2 2 (scalars (snd (solve float_traits (built B_lower) 0 2 (world0 B_lower [4, 1, 9, 9]))))
     = [1, 0] \<and>
   Map_read 2 2 (scalars (snd (solve float_traits (built B_lower) 0 2 (world0 B_lower [4, 1]))))
     = [1, 0] \<and>
   Map_read 2 2 (scalars (mat_prod Lower (built B_lower) 0 2 (world0 B_lower [4, 1, 9, 9]))) = [17, 7] \<and>
   Map_read 2 2 (scalars (mat_prod Lower (built B_lower) 0 2 (world0 B_lower [4, 1]))) = [17, 7] \<and>
   Map_read 0 2 (scalars (snd (solve float_traits (built B_lower) 0 2 (world0 B_lower [4, 1, 9, 9]))))
     = [4, 1] \<and>
   Map_read 0 2 (scalars (mat_prod Lower (built B_lower) 0 2 (world0 B_lower [4, 1, 9, 9]))) = [4, 1] \<and>
   scalars (snd (solve float_traits (built B_lower) 0 2 (world0 B_lower [4, 1, 9, 9]))) 4 = 0 \<and>
   scalars (mat_prod Lower (built B_lower) 0 2 (world0 B_lower [4, 1, 9, 9])) 4 = 0 \<and>
   rows (fst (solve float_traits (built B_lower) 0 2 (world0 B_lower [4, 1, 9, 9]))) = 2 \<and>
   matrices (snd (solve float_traits (built B_lower) 0 2 (world0 B_lower [4, 1, 9, 9]))) 0 = B_lower"
proof -
  let ?w = "world0 B_lower [4, 1, 9, 9]"
  let ?z = "world0 B_lower [4, 1]"
  let ?s = "solve float_traits (built B_lower) 0 2 ?w"
  let ?p = "mat_prod Lower (built B_lower) 0 2 ?w"
  have r: "Ready (built B_lower) ?w" by (simp add: eval_defs)
  have c: "compressed (matrices ?w (m_mat (built B_lower)))" by (simp add: eval_defs)
  have s: "separate 0 2 (nat (m_n (built B_lower)))" by (simp add: eval_defs)
  have n: "nat (m_n (built B_lower)) = 2" by (simp add: eval_defs)
  have i: "invoke float_traits Lower (Solve 0 2) (built B_lower, ?w) = Inr (VoidVal, fst ?s, snd ?s)"
    by (simp add: invoke_def)
  have j: "invoke float_traits Lower (MatProd 0 2) (built B_lower, ?w) = Inr (VoidVal, built B_lower, ?p)"
    by (simp add: invoke_def)
  have o: "Map_read 2 2 (scalars (snd ?s)) = [1, 0]" by (simp add: eval_defs)
  have o': "Map_read 2 2 (scalars (snd (solve float_traits (built B_lower) 0 2 ?z))) = [1, 0]"
    by (simp add: eval_defs)
  have q: "Map_read 2 2 (scalars ?p) = [17, 7]" by (simp add: eval_defs)
  have q': "Map_read 2 2 (scalars (mat_prod Lower (built B_lower) 0 2 ?z)) = [17, 7]"
    by (simp add: eval_defs)
  have x: "Map_read 0 2 (scalars ?w) = [4, 1]" "Map_read 2 2 (scalars ?w) = [9, 9]"
    "scalars ?w 4 = 0" "rows (built B_lower) = 2" "matrices ?w 0 = B_lower"
    by (simp_all add: eval_defs)
  have a: "\<not> (2 \<le> (4::nat) \<and> (4::nat) < 2 + 2)" by simp
  have f1: "scalars (snd ?s) 4 = scalars ?w 4"
    and i1: "Map_read 0 2 (scalars (snd ?s)) = Map_read 0 2 (scalars ?w)"
    and r1: "rows (fst ?s) = rows (built B_lower)"
    and m1: "matrices (snd ?s) = matrices ?w"
    using call_frame[OF r c s _ i] a unfolding n by simp_all
  have f2: "scalars ?p 4 = scalars ?w 4"
    and i2: "Map_read 0 2 (scalars ?p) = Map_read 0 2 (scalars ?w)"
    using call_frame[OF r c s _ j] a unfolding n by simp_all
  have c': "compressed B_lower" and s': "separate 0 2 2" by (simp_all add: eval_defs)
  show ?thesis
    using r c' s' i j o o' q q' x f1 i1 r1 m1 f2 i2
    by simp
qed

text \<open>
  C2. The claim is that \<open>solve\<close> inverts the matrix that \<open>mat_prod\<close> multiplies by, for
  either triangle flag. \<open>solve\<close> does not depend on \<open>Uplo\<close>: the solver always works on the
  lower triangle. With the upper triangle of \<open>[[4, 1], [1, 3]]\<close> stored and the flag
  \<open>Upper\<close>, \<open>mat_prod\<close> maps \<open>[1, 0]\<close> to \<open>[4, 1]\<close>, but \<open>solve\<close> maps \<open>[4, 1]\<close> to
  \<open>[1, 1/3]\<close>, the solution for the diagonal alone, and the solver reports success. With
  the lower triangle stored, \<open>solve\<close> maps \<open>[4, 1]\<close> to \<open>[1, 0]\<close>.
\<close>

theorem solve_ignores_upper_flag:
  "fst (SparseRegularInverse_new float_traits 0 (world0 B_upper [4, 1])) = Inr (built B_upper) \<and>
   Map_read 2 2 (scalars (mat_prod Upper (built B_upper) 0 2 (world0 B_upper [1, 0]))) = [4, 1] \<and>
   Map_read 2 2 (scalars (snd (solve float_traits (built B_upper) 0 2 (world0 B_upper [4, 1]))))
     = [1, 1 / 3] \<and>
   m_info (m_cg (fst (solve float_traits (built B_upper) 0 2 (world0 B_upper [4, 1])))) = Some Success \<and>
   Map_read 2 2 (scalars (snd (solve float_traits (built B_lower) 0 2 (world0 B_lower [4, 1]))))
     = [1, 0]"
proof -
  have "fst (SparseRegularInverse_new float_traits 0 (world0 B_upper [4, 1])) = Inr (built B_upper)"
    by (rule built_is_constructed) (simp add: eval_defs)
  moreover have "Map_read 2 2 (scalars (mat_prod Upper (built B_upper) 0 2 (world0 B_upper [1, 0]))) = [4, 1]"
    by (simp add: eval_defs)
  moreover have "Map_read 2 2 (scalars (snd (solve float_traits (built B_upper) 0 2 (world0 B_upper [4, 1]))))
     = [1, 1 / 3]"
    by (simp add: eval_defs)
  moreover have "m_info (m_cg (fst (solve float_traits (built B_upper) 0 2 (world0 B_upper [4, 1])))) = Some Success"
    by (simp add: eval_defs)
  moreover have "Map_read 2 2 (scalars (snd (solve float_traits (built B_lower) 0 2 (world0 B_lower [4, 1]))))
     = [1, 0]"
    by (simp add: eval_defs)
  ultimately show ?thesis by blast
qed


text \<open>
  C5. The round trip \<open>solve (mat_prod x)\<close> on the same two matrices, the output of
  \<open>mat_prod\<close> at address 2 being the input of \<open>solve\<close>: \<open>[1, 0]\<close> comes back as \<open>[1, 1/3]\<close>
  under the flag \<open>Upper\<close> and as \<open>[1, 0]\<close> under \<open>Lower\<close>. The spec's scenario with the
  identity and \<open>[3, 5]\<close> holds.
\<close>

theorem round_trip_fails_for_upper_flag:
  "Map_read 4 2 (scalars (snd (solve float_traits (built B_upper) 2 4
       (mat_prod Upper (built B_upper) 0 2 (world0 B_upper [1, 0]))))) = [1, 1 / 3] \<and>
   Map_read 4 2 (scalars (snd (solve float_traits (built B_lower) 2 4
       (mat_prod Lower (built B_lower) 0 2 (world0 B_lower [1, 0]))))) = [1, 0] \<and>
   Map_read 2 2 (scalars (mat_prod Lower (built B_identity) 0 2 (world0 B_identity [3, 5]))) = [3, 5] \<and>
   Map_read 2 2 (scalars (snd (solve float_traits (built B_identity) 0 2 (world0 B_identity [3, 5]))))
     = [3, 5]"
proof -
  have "Map_read 4 2 (scalars (snd (solve float_traits (built B_upper) 2 4
       (mat_prod Upper (built B_upper) 0 2 (world0 B_upper [1, 0]))))) = [1, 1 / 3]"
    by (simp add: eval_defs)
  moreover have "Map_read 4 2 (scalars (snd (solve float_traits (built B_lower) 2 4
       (mat_prod Lower (built B_lower) 0 2 (world0 B_lower [1, 0]))))) = [1, 0]"
    by (simp add: eval_defs)
  moreover have "Map_read 2 2 (scalars (mat_prod Lower (built B_identity) 0 2 (world0 B_identity [3, 5]))) = [3, 5]"
    by (simp add: eval_defs)
  moreover have "Map_read 2 2 (scalars (snd (solve float_traits (built B_identity) 0 2 (world0 B_identity [3, 5]))))
     = [3, 5]"
    by (simp add: eval_defs)
  ultimately show ?thesis by blast
qed

end
